(* ===== verification/Prelude.thy ===== *)
theory Prelude
  imports Main "HOL-Library.Multiset"
begin

text \<open>
  Shared vocabulary of the Markov-chain development: the error values that stand for
  the C program's crashes and failed allocations, the C return codes, the model of the
  process-wide pseudo-random generator, checked array reads, and the list and sum
  lemmas that the component theories share.  The collection \<open>markov_defs\<close> gathers
  the definitions that component proofs unfold, \<open>markov_inv\<close> the invariant lemmas
  that \<open>auto\<close> may use as introduction rules, and \<open>markov_eval\<close> the guarded
  unfolding rules with which \<open>simp\<close> runs a loop of the model on a concrete input
  (each rule applies only once its guard is decided, so evaluation cannot loop).
\<close>

named_theorems markov_defs "definitions of the Markov-chain model unfolded by proofs"
named_theorems markov_inv "invariant-preservation facts of the Markov-chain model"
named_theorems markov_eval "guarded unfolding rules that evaluate the model on concrete inputs"

subsection \<open>Errors and return codes\<close>

text \<open>
  \<open>Allocation_error\<close> is a failed \<open>malloc\<close>/\<open>realloc\<close> that the code reports;
  the other constructors are undefined behaviour of the C code that the model makes
  visible instead of hiding it in an unspecified HOL value: \<open>rand() % 0\<close>, a
  dereference of \<open>NULL\<close>, a read past the end of a heap array, signed overflow.
\<close>

datatype error =
    Allocation_error
  | Division_by_zero
  | Null_dereference
  | Out_of_bounds
  | Int_overflow

datatype status = EXIT_SUCCESS | EXIT_FAILURE

subsection \<open>The random generator\<close>

text \<open>
  \<open>rand()\<close> is modelled as a fixed sequence of results \<open>rs :: nat \<Rightarrow> nat\<close> and a
  counter of the calls made so far: the \<open>k\<close>-th call returns \<open>rs k\<close>.  Every
  operation that draws takes the counter and returns the advanced one, so that a
  fixed seed (a fixed sequence) makes a whole run reproducible.
\<close>

type_synonym rand_source = "nat \<Rightarrow> nat"

text \<open>
  The outcomes of the allocations a client makes, in the order of its allocation
  sites: \<open>al a\<close> is whether the \<open>a\<close>-th allocation succeeds.
\<close>

type_synonym alloc_source = "nat \<Rightarrow> bool"

abbreviation INT_MAX :: int where
  "INT_MAX \<equiv> 2147483647"

subsection \<open>Checked reads\<close>

definition nth_checked :: "'a list \<Rightarrow> nat \<Rightarrow> error + 'a" where
  "nth_checked xs i = (if i < length xs then Inr (xs ! i) else Inl Out_of_bounds)"

lemma nth_checked_in [simp]: "i < length xs \<Longrightarrow> nth_checked xs i = Inr (xs ! i)"
  by (simp add: nth_checked_def)

lemma nth_checked_out [simp]: "\<not> i < length xs \<Longrightarrow> nth_checked xs i = Inl Out_of_bounds"
  by (simp add: nth_checked_def)

subsection \<open>Prefix sums\<close>

text \<open>
  The weighted choice of the walk compares a random draw with the running sums of
  the frequencies; these are the lemmas it needs about \<open>sum_list (take j ws)\<close>.
\<close>

lemma sum_list_take_Suc_nth:
  "j < length ws \<Longrightarrow> sum_list (take (Suc j) ws) = sum_list (take j ws) + ws ! j"
  by (simp add: take_Suc_conv_app_nth)

lemma sum_list_take_mono:
  "i \<le> j \<Longrightarrow> sum_list (take i (ws :: nat list)) \<le> sum_list (take j ws)"
proof (induction j)
  case 0
  then show ?case by simp
next
  case (Suc j)
  show ?case
  proof (cases "i = Suc j")
    case True
    then show ?thesis by simp
  next
    case False
    with Suc have "sum_list (take i ws) \<le> sum_list (take j ws)" by simp
    also have "\<dots> \<le> sum_list (take (Suc j) ws)"
      by (cases "j < length ws") (simp_all add: sum_list_take_Suc_nth)
    finally show ?thesis .
  qed
qed

lemma sum_list_take_le: "sum_list (take j (ws :: nat list)) \<le> sum_list ws"
  using sum_list_take_mono [of j "length ws" ws] by (cases "j \<le> length ws") simp_all

lemma elem_le_sum_list: "x \<in> set (ws :: nat list) \<Longrightarrow> x \<le> sum_list ws"
  by (simp add: member_le_sum_list)

subsection \<open>Lists updated in place\<close>

lemma map_update_same [simp]:
  "f y = f (xs ! i) \<Longrightarrow> map f (xs[i := y]) = map f xs"
proof (induction xs arbitrary: i)
  case Nil
  then show ?case by simp
next
  case (Cons x xs)
  then show ?case by (cases i) simp_all
qed

subsection \<open>Bounded quantifiers on numerals\<close>

declare All_less_Suc2 [markov_eval]

lemma All_less_numeral [markov_eval]:
  "(\<forall>i < numeral n. P i) \<longleftrightarrow> P 0 \<and> (\<forall>i < pred_numeral n. P (Suc i))"
  by (simp add: numeral_eq_Suc All_less_Suc2)

end
