(* ===== verification/Markov_Store.thy ===== *)
theory Markov_Store
  imports Prelude
begin

text \<open>
  The state store of \<open>src/markov_chain.c\<close>: the records of \<open>markov_chain.h\<close>
  (\<open>MarkovNodeFrequency\<close>, \<open>MarkovNode\<close>, \<open>MarkovChain\<close>), the database lookup
  \<open>get_node_from_database\<close>, the linked-list append \<open>add\<close> of \<open>linked_list.c\<close>
  and the insert-or-find \<open>add_to_database\<close>; the well-formedness invariant of a chain
  and its preservation; and the refinement of insert-or-find to the abstract
  "append if absent" on the list of stored payloads.

  Pointers to nodes are indices into the database list: nodes are only ever appended
  and never freed before teardown, so the position of a node in the list is a stable
  name for it, as the address is in C.
\<close>

subsection \<open>Data\<close>

record MarkovNodeFrequency =
  markov_node :: nat
  frequency :: nat

record 'a MarkovNode =
  data :: 'a
  frequency_list :: "MarkovNodeFrequency list"
  fre_list_size :: nat

text \<open>
  The linked list \<open>LinkedList\<close> (fields \<open>first\<close>, \<open>last\<close>, \<open>size\<close>) is the list
  of its nodes in order: \<open>first\<close> is its head, \<open>last\<close> its last element and
  \<open>size\<close> its length.  The chain holds it with the four behaviours of the payload type.
\<close>

type_synonym 'a LinkedList = "'a MarkovNode list"

record 'a MarkovChain =
  database :: "'a LinkedList"
  comp_func :: "'a \<Rightarrow> 'a \<Rightarrow> int"
  copy_func :: "'a \<Rightarrow> 'a"
  is_last :: "'a \<Rightarrow> bool"
  print_func :: "'a \<Rightarrow> string"

subsection \<open>Operations\<close>

text \<open>
  The scan of \<open>get_node_from_database\<close>: \<open>index_node\<close> walks the list; the first
  node whose payload compares equal (\<open>comp_func\<close> returns \<open>EXIT_SUCCESS\<close>, i.e. 0)
  is returned.
\<close>

fun scan_database :: "('a \<Rightarrow> 'a \<Rightarrow> int) \<Rightarrow> 'a \<Rightarrow> 'a MarkovNode list \<Rightarrow> nat \<Rightarrow> nat option" where
  "scan_database cmp x [] i = None"
| "scan_database cmp x (n # ns) i =
     (if cmp (data n) x = 0 then Some i else scan_database cmp x ns (Suc i))"

definition get_node_from_database :: "'a MarkovChain \<Rightarrow> 'a \<Rightarrow> nat option" where
  "get_node_from_database mc x =
     (if database mc = [] then None else scan_database (comp_func mc) x (database mc) 0)"

text \<open>
  \<open>add\<close> of \<open>linked_list.c\<close> (not among the sources; modelled from its use and the
  spec): it allocates a list cell, which may fail, and appends the node at the end.
  \<open>ok\<close> is the outcome of that allocation.
\<close>

definition add :: "'a LinkedList \<Rightarrow> 'a MarkovNode \<Rightarrow> bool \<Rightarrow> 'a LinkedList option" where
  "add l n ok = (if ok then Some (l @ [n]) else None)"

text \<open>
  \<open>add_to_database\<close> returns the chain after the call and the node it returns
  (\<open>None\<close> for \<open>NULL\<close>).  The three flags are the outcomes of the three allocations
  it makes: the \<open>MarkovNode\<close>, its frequency array, and the list cell in \<open>add\<close>.
\<close>

definition add_to_database ::
  "'a MarkovChain \<Rightarrow> 'a \<Rightarrow> bool \<Rightarrow> bool \<Rightarrow> bool \<Rightarrow> 'a MarkovChain \<times> nat option" where
  "add_to_database mc x ok_node ok_list ok_cell =
     (case get_node_from_database mc x of
        Some i \<Rightarrow> (mc, Some i)
      | None \<Rightarrow>
          if \<not> ok_node then (mc, None)
          else
            let n = \<lparr>data = copy_func mc x, frequency_list = [], fre_list_size = 0\<rparr> in
            if \<not> ok_list then (mc, None)
            else
              (case add (database mc) n ok_cell of
                 None \<Rightarrow> (mc, None)
               | Some db \<Rightarrow> (mc\<lparr>database := db\<rparr>, Some (length db - 1))))"

subsection \<open>Invariant\<close>

text \<open>
  The behaviours' contract (spec, section 6): \<open>comp_func\<close> returning 0 is an
  equivalence, and a copy compares equal to its original.
\<close>

definition comp_contract :: "'a MarkovChain \<Rightarrow> bool" where
  "comp_contract mc \<longleftrightarrow>
     (\<forall>a. comp_func mc a a = 0) \<and>
     (\<forall>a b. comp_func mc a b = 0 \<longrightarrow> comp_func mc b a = 0) \<and>
     (\<forall>a b c. comp_func mc a b = 0 \<longrightarrow> comp_func mc b c = 0 \<longrightarrow> comp_func mc a c = 0) \<and>
     (\<forall>a. comp_func mc (copy_func mc a) a = 0)"

text \<open>
  No two stored payloads are equal under \<open>comp_func\<close>, and every node's frequency
  table is consistent: its recorded size is the length of its array, each entry points
  to a stored node with a positive count, and no target occurs twice.
\<close>

definition db_unique :: "('a \<Rightarrow> 'a \<Rightarrow> int) \<Rightarrow> 'a MarkovNode list \<Rightarrow> bool" where
  "db_unique cmp db \<longleftrightarrow>
     (\<forall>i < length db. \<forall>j < length db. cmp (data (db ! i)) (data (db ! j)) = 0 \<longrightarrow> i = j)"

definition table_ok :: "nat \<Rightarrow> 'a MarkovNode \<Rightarrow> bool" where
  "table_ok sz n \<longleftrightarrow>
     fre_list_size n = length (frequency_list n) \<and>
     (\<forall>e \<in> set (frequency_list n). markov_node e < sz \<and> 0 < frequency e) \<and>
     distinct (map markov_node (frequency_list n))"

definition wf_chain :: "'a MarkovChain \<Rightarrow> bool" where
  "wf_chain mc \<longleftrightarrow>
     db_unique (comp_func mc) (database mc) \<and>
     (\<forall>n \<in> set (database mc). table_ok (length (database mc)) n)"

text \<open>
  The abstract store of the specification: the list of stored payloads, to which
  insert-or-find appends a payload that is not yet there.
\<close>

definition store_insert :: "'a list \<Rightarrow> 'a \<Rightarrow> 'a list" where
  "store_insert l x = (if x \<in> set l then l else l @ [x])"

declare get_node_from_database_def [markov_defs] add_def [markov_defs]
  add_to_database_def [markov_defs]

subsection \<open>Lookup\<close>

lemma scan_database_Some:
  "scan_database cmp x ns i = Some k \<Longrightarrow>
     i \<le> k \<and> k < i + length ns \<and> cmp (data (ns ! (k - i))) x = 0 \<and>
     (\<forall>j < k - i. cmp (data (ns ! j)) x \<noteq> 0)"
proof (induction ns arbitrary: i)
  case Nil
  then show ?case by simp
next
  case (Cons n ns)
  show ?case
  proof (cases "cmp (data n) x = 0")
    case True
    with Cons.prems show ?thesis by simp
  next
    case False
    with Cons.prems have "scan_database cmp x ns (Suc i) = Some k" by simp
    with Cons.IH have ih: "Suc i \<le> k \<and> k < Suc i + length ns \<and>
        cmp (data (ns ! (k - Suc i))) x = 0 \<and> (\<forall>j < k - Suc i. cmp (data (ns ! j)) x \<noteq> 0)"
      by blast
    then have k: "k - i = Suc (k - Suc i)" by arith
    have "\<forall>j < k - i. cmp (data ((n # ns) ! j)) x \<noteq> 0"
    proof (intro allI impI)
      fix j assume "j < k - i"
      with ih False k show "cmp (data ((n # ns) ! j)) x \<noteq> 0"
        by (cases j) auto
    qed
    with ih k show ?thesis by simp
  qed
qed

lemma scan_database_None:
  "scan_database cmp x ns i = None \<longleftrightarrow> (\<forall>j < length ns. cmp (data (ns ! j)) x \<noteq> 0)"
proof (induction ns arbitrary: i)
  case Nil
  then show ?case by simp
next
  case (Cons n ns)
  then show ?case by (simp add: All_less_Suc2)
qed

lemma get_node_from_database_None:
  "get_node_from_database mc x = None \<longleftrightarrow>
     (\<forall>j < length (database mc). comp_func mc (data (database mc ! j)) x \<noteq> 0)"
  by (simp add: get_node_from_database_def scan_database_None)

lemma get_node_from_database_Some:
  "get_node_from_database mc x = Some k \<longleftrightarrow>
     k < length (database mc) \<and> comp_func mc (data (database mc ! k)) x = 0 \<and>
     (\<forall>j < k. comp_func mc (data (database mc ! j)) x \<noteq> 0)"
  (is "?l \<longleftrightarrow> ?r k")
proof
  assume ?l
  then have "database mc \<noteq> []" and "scan_database (comp_func mc) x (database mc) 0 = Some k"
    by (simp_all add: get_node_from_database_def split: if_splits)
  then show "?r k" using scan_database_Some by fastforce
next
  assume r: "?r k"
  show ?l
  proof (cases "get_node_from_database mc x")
    case None
    then have "\<forall>j < length (database mc). comp_func mc (data (database mc ! j)) x \<noteq> 0"
      by (simp add: get_node_from_database_None)
    with r show ?thesis by blast
  next
    case (Some k')
    then have "?r k'"
      using scan_database_Some
      by (fastforce simp: get_node_from_database_def split: if_splits)
    with r have "k = k'" by (meson linorder_neqE_nat)
    with Some show ?thesis by simp
  qed
qed

subsection \<open>Insert-or-find\<close>

text \<open>The behaviour of \<open>add_to_database\<close> on each of its branches.\<close>

lemma add_to_database_found:
  "get_node_from_database mc x = Some i \<Longrightarrow> add_to_database mc x ok1 ok2 ok3 = (mc, Some i)"
  by (simp add: add_to_database_def)

lemma add_to_database_new:
  "get_node_from_database mc x = None \<Longrightarrow>
   add_to_database mc x True True True =
     (mc\<lparr>database := database mc @ [\<lparr>data = copy_func mc x, frequency_list = [], fre_list_size = 0\<rparr>]\<rparr>,
      Some (length (database mc)))"
  by (simp add: add_to_database_def add_def)

lemma add_to_database_alloc_fail:
  "\<not> (ok1 \<and> ok2 \<and> ok3) \<Longrightarrow> get_node_from_database mc x = None \<Longrightarrow>
   add_to_database mc x ok1 ok2 ok3 = (mc, None)"
  by (auto simp: add_to_database_def add_def Let_def)

lemma add_to_database_cases:
  obtains (found) i where "get_node_from_database mc x = Some i"
      "add_to_database mc x ok1 ok2 ok3 = (mc, Some i)"
  | (new) "get_node_from_database mc x = None" "ok1" "ok2" "ok3"
      "add_to_database mc x ok1 ok2 ok3 =
        (mc\<lparr>database := database mc @ [\<lparr>data = copy_func mc x, frequency_list = [], fre_list_size = 0\<rparr>]\<rparr>,
         Some (length (database mc)))"
  | (fail) "get_node_from_database mc x = None" "add_to_database mc x ok1 ok2 ok3 = (mc, None)"
  by (cases "get_node_from_database mc x"; cases ok1; cases ok2; cases ok3)
     (simp_all add: add_to_database_found add_to_database_new add_to_database_alloc_fail)

lemma add_to_database_frame:
  "add_to_database mc x ok1 ok2 ok3 = (mc', r) \<Longrightarrow>
     comp_func mc' = comp_func mc \<and> copy_func mc' = copy_func mc \<and>
     is_last mc' = is_last mc \<and> print_func mc' = print_func mc \<and>
     take (length (database mc)) (database mc') = database mc"
  by (cases rule: add_to_database_cases [of mc x ok1 ok2 ok3]) auto

lemma table_ok_mono: "table_ok sz n \<Longrightarrow> sz \<le> sz' \<Longrightarrow> table_ok sz' n"
  by (fastforce simp: table_ok_def)

lemma table_ok_empty: "table_ok sz \<lparr>data = d, frequency_list = [], fre_list_size = 0\<rparr>"
  by (simp add: table_ok_def)

text \<open>Appending a payload that no stored payload equals keeps the store unique.\<close>

lemma db_unique_append:
  assumes u: "db_unique cmp db"
    and fresh: "\<forall>j < length db. cmp (data (db ! j)) x \<noteq> 0"
    and sym: "\<forall>a b. cmp a b = 0 \<longrightarrow> cmp b a = 0"
  shows "db_unique cmp (db @ [n\<lparr>data := x\<rparr>])"
  unfolding db_unique_def
proof (intro allI impI)
  fix i j
  assume i: "i < length (db @ [n\<lparr>data := x\<rparr>])" and j: "j < length (db @ [n\<lparr>data := x\<rparr>])"
    and eq: "cmp (data ((db @ [n\<lparr>data := x\<rparr>]) ! i)) (data ((db @ [n\<lparr>data := x\<rparr>]) ! j)) = 0"
  consider "i < length db" "j < length db" | "i < length db" "j = length db"
    | "i = length db" "j < length db" | "i = length db" "j = length db"
    using i j by fastforce
  then show "i = j"
  proof cases
    case 1
    with u eq show ?thesis by (simp add: db_unique_def nth_append)
  next
    case 2
    with fresh eq show ?thesis by (simp add: nth_append)
  next
    case 3
    with fresh eq sym show ?thesis by (auto simp: nth_append)
  qed simp
qed

lemma comp_contract_copy:
  assumes "comp_contract mc"
  shows "comp_func mc a (copy_func mc x) = 0 \<longleftrightarrow> comp_func mc a x = 0"
  using assms unfolding comp_contract_def by metis

lemma wf_add_to_database [markov_inv]:
  assumes c: "comp_contract mc" and wf: "wf_chain mc"
  shows "wf_chain (fst (add_to_database mc x ok1 ok2 ok3))"
proof (cases rule: add_to_database_cases [of mc x ok1 ok2 ok3])
  case new
  let ?n = "\<lparr>data = copy_func mc x, frequency_list = [], fre_list_size = 0\<rparr>
    :: 'a MarkovNode"
  have fresh: "\<forall>j < length (database mc). comp_func mc (data (database mc ! j)) (copy_func mc x) \<noteq> 0"
    using new(1) comp_contract_copy [OF c] by (simp add: get_node_from_database_None)
  have sym: "\<forall>a b. comp_func mc a b = 0 \<longrightarrow> comp_func mc b a = 0"
    using c unfolding comp_contract_def by blast
  have "db_unique (comp_func mc) (database mc @ [?n\<lparr>data := copy_func mc x\<rparr>])"
    using wf fresh sym by (intro db_unique_append) (simp_all add: wf_chain_def)
  moreover have "\<forall>m \<in> set (database mc @ [?n]). table_ok (Suc (length (database mc))) m"
    using wf by (auto simp: wf_chain_def table_ok_empty intro: table_ok_mono)
  ultimately show ?thesis using new(5) by (simp add: wf_chain_def)
qed (use wf in simp_all)

text \<open>C7. Uniqueness invariant: whatever the three allocations do, \<open>add_to_database\<close>
  keeps a well-formed chain well formed; in particular no two stored payloads are ever
  equal under \<open>comp_func\<close>, provided the behaviours meet their contract.\<close>

theorem add_to_database_wf:
  assumes "comp_contract mc" "wf_chain mc"
  shows "wf_chain (fst (add_to_database mc x ok1 ok2 ok3))"
  using wf_add_to_database [OF assms] .

subsection \<open>Refinement of insert-or-find\<close>

text \<open>When \<open>comp_func\<close> decides equality on the stored payloads and copying is the
  identity on \<open>x\<close>, the stored payloads after a successful call are the abstract
  store with \<open>x\<close> inserted, and the returned node holds \<open>x\<close>.\<close>

lemma set_foldl_store_insert: "set (foldl store_insert l xs) = set l \<union> set xs"
  by (induction xs arbitrary: l) (auto simp: store_insert_def)

lemma add_to_database_store_insert:
  assumes eq: "\<forall>y \<in> set (map data (database mc)). comp_func mc y x = 0 \<longleftrightarrow> y = x"
    and cp: "copy_func mc x = x"
  shows "\<exists>i. snd (add_to_database mc x True True True) = Some i \<and>
           map data (database (fst (add_to_database mc x True True True))) =
             store_insert (map data (database mc)) x \<and>
           i < length (database (fst (add_to_database mc x True True True))) \<and>
           data (database (fst (add_to_database mc x True True True)) ! i) = x"
proof (cases "get_node_from_database mc x")
  case None
  have "x \<notin> set (map data (database mc))"
  proof
    assume "x \<in> set (map data (database mc))"
    then obtain j where j: "j < length (database mc)" "data (database mc ! j) = x"
      by (auto simp: in_set_conv_nth)
    then have "data (database mc ! j) \<in> set (map data (database mc))"
      by (metis length_map nth_map nth_mem)
    with eq j(2) have "comp_func mc (data (database mc ! j)) x = 0" by blast
    with None j(1) show False by (simp add: get_node_from_database_None)
  qed
  with None cp show ?thesis
    by (simp add: add_to_database_new store_insert_def nth_append)
next
  case (Some i)
  then have "i < length (database mc)" "comp_func mc (data (database mc ! i)) x = 0"
    by (simp_all add: get_node_from_database_Some)
  with eq have "data (database mc ! i) = x" by (metis nth_map length_map nth_mem)
  with Some \<open>i < length (database mc)\<close> show ?thesis
    by (auto simp: add_to_database_found store_insert_def)
qed

text \<open>C12. Refinement of the store: with a comparison that decides equality on the
  stored payloads and a copy that preserves \<open>x\<close>, \<open>add_to_database\<close> with its
  allocations succeeding implements "append if absent" on the list of stored payloads
  (insertion order kept) and returns a node holding \<open>x\<close>.\<close>

theorem add_to_database_refines:
  assumes "\<forall>y \<in> set (map data (database mc)). comp_func mc y x = 0 \<longleftrightarrow> y = x"
    and "copy_func mc x = x"
  shows "\<exists>i. snd (add_to_database mc x True True True) = Some i \<and>
           map data (database (fst (add_to_database mc x True True True))) =
             store_insert (map data (database mc)) x \<and>
           i < length (database (fst (add_to_database mc x True True True))) \<and>
           data (database (fst (add_to_database mc x True True True)) ! i) = x"
  using add_to_database_store_insert [OF assms] .

end
