(* ===== verification/Markov_Freq.thy ===== *)
theory Markov_Freq
  imports Markov_Store
begin

text \<open>
  The transition table of a node (\<open>add_node_to_frequency_list\<close> of
  \<open>src/markov_chain.c\<close>): the linear scan for an entry whose target equals the new
  target, the increment of that entry, and otherwise the allocation of a new entry and
  the \<open>realloc\<close> that grows the array by one.  The table is abstracted to the multiset
  of its targets, each counted with its frequency; recording a transition adds the
  target once to that multiset.  The failure paths are kept: a failed \<open>malloc\<close> of the
  entry leaves the chain as it was, a failed \<open>realloc\<close> leaves the size counter
  incremented.
\<close>

subsection \<open>The scan\<close>

text \<open>
  \<open>for (int i = 0; i < first_node->fre_list_size; ++i)\<close>: the loop reads
  \<open>frequency_list[i]\<close> for \<open>i\<close> below the recorded size, which is a read past the
  array when the size counter exceeds the array.
\<close>

function find_in_freq ::
  "('a \<Rightarrow> 'a \<Rightarrow> int) \<Rightarrow> 'a MarkovNode list \<Rightarrow> 'a \<Rightarrow> MarkovNodeFrequency list \<Rightarrow> nat \<Rightarrow> nat \<Rightarrow>
   error + nat option" where
  "find_in_freq cmp db y fl n i =
     (if i < n then
        (case nth_checked fl i of
           Inl e \<Rightarrow> Inl e
         | Inr f \<Rightarrow>
             if cmp (data (db ! markov_node f)) y = 0 then Inr (Some i)
             else find_in_freq cmp db y fl n (Suc i))
      else Inr None)"
  by pat_completeness auto
termination
  by (relation "measure (\<lambda>(cmp, db, y, fl, n, i). n - i)") auto

declare find_in_freq.simps [simp del]

text \<open>
  The whole function.  \<open>a\<close> is \<open>first_node\<close> and \<open>b\<close> is \<open>second_node\<close>;
  \<open>ok_entry\<close> and \<open>ok_realloc\<close> are the outcomes of the \<open>malloc\<close> of the new
  entry and of the \<open>realloc\<close>.  The result is the chain after the call with the
  returned code, or the undefined behaviour of an out-of-range read.  The grown array
  keeps its first \<open>fre_list_size\<close> entries and stores the new entry after them.
\<close>

definition add_node_to_frequency_list ::
  "'a MarkovChain \<Rightarrow> nat \<Rightarrow> nat \<Rightarrow> bool \<Rightarrow> bool \<Rightarrow> error + ('a MarkovChain \<times> status)" where
  "add_node_to_frequency_list mc a b ok_entry ok_realloc =
     (let db = database mc; fn = db ! a; fl = frequency_list fn in
      case find_in_freq (comp_func mc) db (data (db ! b)) fl (fre_list_size fn) 0 of
        Inl e \<Rightarrow> Inl e
      | Inr (Some i) \<Rightarrow>
          Inr (mc\<lparr>database := db[a := fn\<lparr>frequency_list :=
                 fl[i := (fl ! i)\<lparr>frequency := Suc (frequency (fl ! i))\<rparr>]\<rparr>]\<rparr>, EXIT_SUCCESS)
      | Inr None \<Rightarrow>
          if \<not> ok_entry then Inr (mc, EXIT_FAILURE)
          else
            let sz = Suc (fre_list_size fn) in
            if \<not> ok_realloc then
              Inr (mc\<lparr>database := db[a := fn\<lparr>fre_list_size := sz\<rparr>]\<rparr>, EXIT_FAILURE)
            else
              Inr (mc\<lparr>database := db[a := fn\<lparr>fre_list_size := sz,
                 frequency_list := take (fre_list_size fn) fl @
                   [\<lparr>markov_node = b, frequency = 1\<rparr>]\<rparr>]\<rparr>, EXIT_SUCCESS))"

declare add_node_to_frequency_list_def [markov_defs]

subsection \<open>Abstraction: the multiset of observed targets\<close>

fun freq_mset :: "MarkovNodeFrequency list \<Rightarrow> nat multiset" where
  "freq_mset [] = {#}"
| "freq_mset (e # es) = replicate_mset (frequency e) (markov_node e) + freq_mset es"

subsection \<open>Evaluation on concrete inputs\<close>

lemma find_in_freq_step [markov_eval]:
  "i < n \<Longrightarrow> i < length fl \<Longrightarrow>
   find_in_freq cmp db y fl n i =
     (if cmp (data (db ! markov_node (fl ! i))) y = 0 then Inr (Some i)
      else find_in_freq cmp db y fl n (Suc i))"
  by (subst find_in_freq.simps) simp

lemma find_in_freq_stop [markov_eval]:
  "\<not> i < n \<Longrightarrow> find_in_freq cmp db y fl n i = Inr None"
  "i < n \<Longrightarrow> \<not> i < length fl \<Longrightarrow> find_in_freq cmp db y fl n i = Inl Out_of_bounds"
  by (subst find_in_freq.simps; simp)+

lemma freq_mset_append [simp]: "freq_mset (xs @ ys) = freq_mset xs + freq_mset ys"
  by (induction xs) simp_all

lemma freq_mset_incr:
  "k < length fl \<Longrightarrow>
   freq_mset (fl[k := (fl ! k)\<lparr>frequency := Suc (frequency (fl ! k))\<rparr>]) =
   add_mset (markov_node (fl ! k)) (freq_mset fl)"
proof (induction fl arbitrary: k)
  case Nil
  then show ?case by simp
next
  case (Cons e es)
  then show ?case by (cases k) simp_all
qed

lemma count_freq_mset:
  "count (freq_mset fl) t = sum_list (map frequency (filter (\<lambda>e. markov_node e = t) fl))"
  by (induction fl) simp_all

subsection \<open>The scan, characterised\<close>

lemma find_in_freq_Some:
  "find_in_freq cmp db y fl n i = Inr (Some k) \<Longrightarrow>
     i \<le> k \<and> k < n \<and> k < length fl \<and> cmp (data (db ! markov_node (fl ! k))) y = 0"
proof (induction cmp db y fl n i rule: find_in_freq.induct)
  case (1 cmp db y fl n i)
  show ?case
  proof (cases "i < n \<and> i < length fl")
    case True
    then have nc: "nth_checked fl i = Inr (fl ! i)" by simp
    show ?thesis
    proof (cases "cmp (data (db ! markov_node (fl ! i))) y = 0")
      case True
      with "1.prems" nc \<open>i < n \<and> i < length fl\<close> show ?thesis
        by (subst (asm) find_in_freq.simps) simp
    next
      case False
      with "1.prems" nc \<open>i < n \<and> i < length fl\<close>
      have "find_in_freq cmp db y fl n (Suc i) = Inr (Some k)"
        by (subst (asm) find_in_freq.simps) simp
      with "1.IH" [OF _ nc False] \<open>i < n \<and> i < length fl\<close> show ?thesis by simp
    qed
  next
    case False
    with "1.prems" show ?thesis
      by (subst (asm) find_in_freq.simps) (auto simp: nth_checked_def split: if_splits)
  qed
qed

lemma find_in_freq_total:
  "n \<le> length fl \<Longrightarrow>
   find_in_freq cmp db y fl n i =
     Inr (if \<exists>j. i \<le> j \<and> j < n \<and> cmp (data (db ! markov_node (fl ! j))) y = 0
          then Some (LEAST j. i \<le> j \<and> cmp (data (db ! markov_node (fl ! j))) y = 0)
          else None)"
proof (induction cmp db y fl n i rule: find_in_freq.induct)
  case (1 cmp db y fl n i)
  let ?P = "\<lambda>j. cmp (data (db ! markov_node (fl ! j))) y = 0"
  show ?case
  proof (cases "i < n")
    case False
    then show ?thesis by (subst find_in_freq.simps) auto
  next
    case True
    with "1.prems" have il: "i < length fl" by simp
    show ?thesis
    proof (cases "?P i")
      case True
      have "(LEAST j. i \<le> j \<and> ?P j) = i"
        using True by (intro Least_equality) simp_all
      with True \<open>i < n\<close> il show ?thesis by (subst find_in_freq.simps) auto
    next
      case False
      have ih: "find_in_freq cmp db y fl n (Suc i) =
          Inr (if \<exists>j. Suc i \<le> j \<and> j < n \<and> ?P j
               then Some (LEAST j. Suc i \<le> j \<and> ?P j) else None)"
        using "1.IH" [OF \<open>i < n\<close> _ False] "1.prems" il by simp
      have step: "\<And>j. i \<le> j \<Longrightarrow> ?P j \<Longrightarrow> Suc i \<le> j"
        using False by (metis Suc_leI le_neq_implies_less)
      have same: "(\<lambda>j. Suc i \<le> j \<and> ?P j) = (\<lambda>j. i \<le> j \<and> ?P j)"
        using step by (auto dest: Suc_leD)
      have ex: "(\<exists>j. Suc i \<le> j \<and> j < n \<and> ?P j) \<longleftrightarrow> (\<exists>j. i \<le> j \<and> j < n \<and> ?P j)"
        using step by (blast dest: Suc_leD)
      have least: "(LEAST j. Suc i \<le> j \<and> ?P j) = (LEAST j. i \<le> j \<and> ?P j)"
        using same by simp
      have unf: "find_in_freq cmp db y fl n i = find_in_freq cmp db y fl n (Suc i)"
        using \<open>i < n\<close> il False by (subst find_in_freq.simps) simp
      show ?thesis
        unfolding unf ih ex least by (rule refl)
    qed
  qed
qed

subsection \<open>Targets are identified by their index\<close>

lemma comp_contract_refl: "comp_contract mc \<Longrightarrow> comp_func mc a a = 0"
  unfolding comp_contract_def by blast

lemma comp_target_iff:
  assumes "comp_contract mc" "db_unique (comp_func mc) (database mc)"
    and "t < length (database mc)" "b < length (database mc)"
  shows "comp_func mc (data (database mc ! t)) (data (database mc ! b)) = 0 \<longleftrightarrow> t = b"
  using assms comp_contract_refl [OF assms(1)] by (auto simp: db_unique_def)

lemma wf_chain_table:
  "wf_chain mc \<Longrightarrow> a < length (database mc) \<Longrightarrow> table_ok (length (database mc)) (database mc ! a)"
  by (simp add: wf_chain_def)

text \<open>On a well-formed chain the scan never reads out of range and finds exactly the entry
  whose target is \<open>second_node\<close>, if there is one.\<close>

lemma find_in_freq_wf_cases:
  assumes c: "comp_contract mc" and wf: "wf_chain mc"
    and a: "a < length (database mc)" and b: "b < length (database mc)"
  obtains (hit) k where
      "find_in_freq (comp_func mc) (database mc) (data (database mc ! b)) (frequency_list (database mc ! a))
         (fre_list_size (database mc ! a)) 0 = Inr (Some k)"
      "k < length (frequency_list (database mc ! a))" "markov_node ((frequency_list (database mc ! a)) ! k) = b"
  | (miss)
      "find_in_freq (comp_func mc) (database mc) (data (database mc ! b)) (frequency_list (database mc ! a))
         (fre_list_size (database mc ! a)) 0 = Inr None"
      "b \<notin> set (map markov_node (frequency_list (database mc ! a)))"
proof -
  let ?fl = "frequency_list (database mc ! a)"
  let ?db = "database mc"
  let ?P = "\<lambda>j. comp_func mc (data (?db ! markov_node (?fl ! j))) (data (?db ! b)) = 0"
  have t: "table_ok (length ?db) (?db ! a)" using wf a by (rule wf_chain_table)
  then have sz: "fre_list_size (?db ! a) = length ?fl"
    and tgt: "\<And>j. j < length ?fl \<Longrightarrow> markov_node (?fl ! j) < length ?db"
    by (auto simp: table_ok_def)
  have u: "db_unique (comp_func mc) ?db" using wf by (simp add: wf_chain_def)
  have P_iff: "\<And>j. j < length ?fl \<Longrightarrow> ?P j \<longleftrightarrow> markov_node (?fl ! j) = b"
    using comp_target_iff [OF c u _ b] tgt by blast
  show thesis
  proof (cases "\<exists>j. 0 \<le> j \<and> j < length ?fl \<and> ?P j")
    case True
    then obtain k where k: "find_in_freq (comp_func mc) ?db (data (?db ! b)) ?fl
        (fre_list_size (?db ! a)) 0 = Inr (Some k)"
      using find_in_freq_total [of "length ?fl" ?fl "comp_func mc" ?db "data (?db ! b)" 0] sz
      by simp
    with find_in_freq_Some [OF k] P_iff show thesis by (intro hit) auto
  next
    case False
    then have "find_in_freq (comp_func mc) ?db (data (?db ! b)) ?fl
        (fre_list_size (?db ! a)) 0 = Inr None"
      using find_in_freq_total [of "length ?fl" ?fl "comp_func mc" ?db "data (?db ! b)" 0] sz
      by simp
    moreover have "b \<notin> set (map markov_node ?fl)"
      using False P_iff by (auto simp: in_set_conv_nth)
    ultimately show thesis by (rule miss)
  qed
qed

text \<open>Replacing a node by one with the same payload and a consistent table keeps the
  chain well formed.\<close>

lemma wf_chain_update_node [markov_inv]:
  assumes wf: "wf_chain mc" and a: "a < length (database mc)"
    and d: "data n = data (database mc ! a)" and t: "table_ok (length (database mc)) n"
  shows "wf_chain (mc\<lparr>database := (database mc)[a := n]\<rparr>)"
proof -
  have "map data ((database mc)[a := n]) = map data (database mc)"
    using d by simp
  then have "\<And>i. i < length (database mc) \<Longrightarrow> data ((database mc)[a := n] ! i) = data (database mc ! i)"
    by (metis length_list_update nth_map)
  then have "db_unique (comp_func mc) ((database mc)[a := n])"
    using wf by (simp add: wf_chain_def db_unique_def)
  moreover have "\<forall>m \<in> set ((database mc)[a := n]). table_ok (length (database mc)) m"
    using wf t by (auto simp: wf_chain_def dest: set_update_subset_insert [THEN subsetD])
  ultimately show ?thesis by (simp add: wf_chain_def)
qed

lemma table_ok_incr:
  "table_ok sz n \<Longrightarrow> k < length (frequency_list n) \<Longrightarrow>
   table_ok sz (n\<lparr>frequency_list := (frequency_list n)[k :=
     (frequency_list n ! k)\<lparr>frequency := Suc (frequency (frequency_list n ! k))\<rparr>]\<rparr>)"
  unfolding table_ok_def
  by (auto dest: set_update_subset_insert [THEN subsetD])

lemma table_ok_grow:
  "table_ok sz n \<Longrightarrow> b < sz \<Longrightarrow> b \<notin> set (map markov_node (frequency_list n)) \<Longrightarrow>
   table_ok sz (n\<lparr>fre_list_size := Suc (fre_list_size n),
     frequency_list := take (fre_list_size n) (frequency_list n) @ [\<lparr>markov_node = b, frequency = 1\<rparr>]\<rparr>)"
  by (auto simp: table_ok_def)

subsection \<open>Recording a transition\<close>

text \<open>With both allocations succeeding, the call on a well-formed chain replaces node
  \<open>a\<close> by a node with the same payload, a consistent table, and one more occurrence of
  \<open>b\<close> among its observed targets.\<close>

lemma add_node_to_frequency_list_shape:
  assumes c: "comp_contract mc" and wf: "wf_chain mc"
    and a: "a < length (database mc)" and b: "b < length (database mc)"
  shows "\<exists>n'. add_node_to_frequency_list mc a b True True =
            Inr (mc\<lparr>database := (database mc)[a := n']\<rparr>, EXIT_SUCCESS) \<and>
          data n' = data (database mc ! a) \<and> table_ok (length (database mc)) n' \<and>
          freq_mset (frequency_list n') = add_mset b (freq_mset (frequency_list (database mc ! a)))"
proof -
  let ?n = "database mc ! a"
  let ?fl = "frequency_list ?n"
  have t: "table_ok (length (database mc)) ?n" using wf a by (rule wf_chain_table)
  then have sz: "fre_list_size ?n = length ?fl" by (simp add: table_ok_def)
  show ?thesis
  proof (cases rule: find_in_freq_wf_cases [OF c wf a b, case_names hit miss])
    case (hit k)
    then show ?thesis
      using t freq_mset_incr [of k ?fl]
      by (intro exI [of _ "?n\<lparr>frequency_list := ?fl[k := (?fl ! k)\<lparr>frequency := Suc (frequency (?fl ! k))\<rparr>]\<rparr>"])
         (simp add: add_node_to_frequency_list_def Let_def table_ok_incr)
  next
    case miss
    let ?n' = "?n\<lparr>fre_list_size := Suc (fre_list_size ?n),
            frequency_list := take (fre_list_size ?n) ?fl @ [\<lparr>markov_node = b, frequency = 1\<rparr>]\<rparr>"
    have "table_ok (length (database mc)) ?n'"
      using t b miss(2) by (rule table_ok_grow)
    with miss show ?thesis
      using sz by (intro exI [of _ ?n']) (simp add: add_node_to_frequency_list_def Let_def)
  qed
qed

text \<open>A target that the table of \<open>a\<close> does not hold yet is appended at its end with
  count 1.\<close>

lemma add_node_to_frequency_list_append:
  assumes c: "comp_contract mc" and wf: "wf_chain mc"
    and a: "a < length (database mc)" and b: "b < length (database mc)"
    and nb: "b \<notin> set (map markov_node (frequency_list (database mc ! a)))"
  shows "add_node_to_frequency_list mc a b True True =
           Inr (mc\<lparr>database := (database mc)[a := (database mc ! a)\<lparr>
                  fre_list_size := Suc (length (frequency_list (database mc ! a))),
                  frequency_list := frequency_list (database mc ! a) @ [\<lparr>markov_node = b, frequency = 1\<rparr>]\<rparr>]\<rparr>,
                EXIT_SUCCESS)"
proof (cases rule: find_in_freq_wf_cases [OF c wf a b, case_names hit miss])
  case (hit k)
  then have "b \<in> set (map markov_node (frequency_list (database mc ! a)))"
    by (metis length_map nth_map nth_mem)
  with nb show ?thesis by blast
next
  case miss
  have "fre_list_size (database mc ! a) = length (frequency_list (database mc ! a))"
    using wf_chain_table [OF wf a] by (simp add: table_ok_def)
  with miss(1) show ?thesis by (simp add: add_node_to_frequency_list_def Let_def)
qed

text \<open>A scan whose bound \<open>n\<close> is past the end of the array and that finds no
  match reads the element after the last one.\<close>

lemma find_in_freq_overrun:
  "(\<forall>j < length fl. i \<le> j \<longrightarrow> cmp (data (db ! markov_node (fl ! j))) y \<noteq> 0) \<Longrightarrow>
   i \<le> length fl \<Longrightarrow> length fl < n \<Longrightarrow> find_in_freq cmp db y fl n i = Inl Out_of_bounds"
proof (induction "length fl - i" arbitrary: i)
  case 0
  then show ?case by (simp add: find_in_freq_stop)
next
  case (Suc m)
  then have "i < length fl" by simp
  with Suc show ?case by (simp add: find_in_freq_step)
qed

text \<open>After a failed \<open>realloc\<close> for a new target the size counter of the table
  is one past its array.\<close>

lemma add_node_to_frequency_list_realloc_fail:
  assumes c: "comp_contract mc" and wf: "wf_chain mc"
    and a: "a < length (database mc)" and b: "b < length (database mc)"
    and nb: "b \<notin> set (map markov_node (frequency_list (database mc ! a)))"
  shows "add_node_to_frequency_list mc a b True False =
           Inr (mc\<lparr>database := (database mc)[a := (database mc ! a)\<lparr>
                  fre_list_size := Suc (length (frequency_list (database mc ! a)))\<rparr>]\<rparr>, EXIT_FAILURE)"
proof (cases rule: find_in_freq_wf_cases [OF c wf a b, case_names hit miss])
  case (hit k)
  then have "b \<in> set (map markov_node (frequency_list (database mc ! a)))"
    by (metis length_map nth_map nth_mem)
  with nb show ?thesis by blast
next
  case miss
  have "fre_list_size (database mc ! a) = length (frequency_list (database mc ! a))"
    using wf_chain_table [OF wf a] by (simp add: table_ok_def)
  with miss(1) show ?thesis by (simp add: add_node_to_frequency_list_def Let_def)
qed

text \<open>A link changes only the table of its source and adds at most its target.\<close>

lemma set_targets_update:
  "markov_node x = markov_node (fl ! i) \<Longrightarrow> markov_node ` set (fl[i := x]) = markov_node ` set fl"
  by (metis list.set_map list_update_id map_update)

lemma add_node_to_frequency_list_targets:
  assumes r: "add_node_to_frequency_list mc a b ok1 ok2 = Inr (mc', st)"
  shows "length (database mc') = length (database mc) \<and>
    (\<forall>i < length (database mc). data (database mc' ! i) = data (database mc ! i) \<and>
       set (map markov_node (frequency_list (database mc' ! i))) \<subseteq>
         set (map markov_node (frequency_list (database mc ! i))) \<union> (if i = a then {b} else {}))"
proof -
  let ?n = "database mc ! a"
  have tk: "set (map markov_node (take k (frequency_list ?n))) \<subseteq> set (map markov_node (frequency_list ?n))" for k
    by (metis set_take_subset take_map)
  consider (e) e where "find_in_freq (comp_func mc) (database mc) (data (database mc ! b))
        (frequency_list ?n) (fre_list_size ?n) 0 = Inl e"
    | (s) j where "find_in_freq (comp_func mc) (database mc) (data (database mc ! b))
        (frequency_list ?n) (fre_list_size ?n) 0 = Inr (Some j)"
    | (n) "find_in_freq (comp_func mc) (database mc) (data (database mc ! b))
        (frequency_list ?n) (fre_list_size ?n) 0 = Inr None"
    by (metis not_None_eq sumE)
  then show ?thesis
  proof cases
    case e
    with r show ?thesis by (simp add: add_node_to_frequency_list_def Let_def)
  next
    case (s j)
    with r have "mc' = mc\<lparr>database := (database mc)[a := ?n\<lparr>frequency_list :=
        (frequency_list ?n)[j := (frequency_list ?n ! j)\<lparr>frequency := Suc (frequency (frequency_list ?n ! j))\<rparr>]\<rparr>]\<rparr>"
      by (simp add: add_node_to_frequency_list_def Let_def)
    then show ?thesis by (auto simp: nth_list_update set_targets_update)
  next
    case n
    with r consider "mc' = mc"
      | "mc' = mc\<lparr>database := (database mc)[a := ?n\<lparr>fre_list_size := Suc (fre_list_size ?n)\<rparr>]\<rparr>"
      | "mc' = mc\<lparr>database := (database mc)[a := ?n\<lparr>fre_list_size := Suc (fre_list_size ?n),
           frequency_list := take (fre_list_size ?n) (frequency_list ?n) @ [\<lparr>markov_node = b, frequency = 1\<rparr>]\<rparr>]\<rparr>"
      by (auto simp: add_node_to_frequency_list_def Let_def split: if_splits)
    then show ?thesis
    proof cases
      case 3
      then show ?thesis using tk by (auto simp: nth_list_update)
    qed (auto simp: nth_list_update)
  qed
qed
text \<open>C3. Frequency accumulation, as a refinement: on a well-formed chain,
  \<open>add_node_to_frequency_list\<close> with both allocations succeeding returns
  \<open>EXIT_SUCCESS\<close>, adds the target \<open>b\<close> once to the multiset of observed targets of
  node \<open>a\<close>, and changes no other node and no payload.  Linking \<open>a\<close> to \<open>b\<close>
  \<open>n\<close> times therefore records \<open>b\<close> with multiplicity \<open>n\<close>.\<close>

theorem add_node_to_frequency_list_refines:
  assumes "comp_contract mc" "wf_chain mc"
    and "a < length (database mc)" "b < length (database mc)"
  shows "\<exists>mc'. add_node_to_frequency_list mc a b True True = Inr (mc', EXIT_SUCCESS) \<and>
           freq_mset (frequency_list (database mc' ! a)) =
             add_mset b (freq_mset (frequency_list (database mc ! a))) \<and>
           map data (database mc') = map data (database mc) \<and>
           (\<forall>j. j \<noteq> a \<longrightarrow> database mc' ! j = database mc ! j)"
  using add_node_to_frequency_list_shape [OF assms] assms(3) by auto

lemma wf_add_node_to_frequency_list:
  assumes "comp_contract mc" "wf_chain mc"
    and "a < length (database mc)" "b < length (database mc)"
  shows "(\<forall>mc' ok1 ok2. add_node_to_frequency_list mc a b ok1 ok2 = Inr (mc', EXIT_SUCCESS) \<longrightarrow>
            wf_chain mc') \<and>
         (\<exists>mc'. add_node_to_frequency_list mc a b True True = Inr (mc', EXIT_SUCCESS))"
proof -
  have "add_node_to_frequency_list mc a b ok1 ok2 = Inr (mc', EXIT_SUCCESS) \<Longrightarrow> wf_chain mc'"
    for mc' ok1 ok2
  proof (cases rule: find_in_freq_wf_cases [OF assms, case_names hit miss])
    case (hit k)
    assume r: "add_node_to_frequency_list mc a b ok1 ok2 = Inr (mc', EXIT_SUCCESS)"
    from hit obtain n' where "add_node_to_frequency_list mc a b True True =
        Inr (mc\<lparr>database := (database mc)[a := n']\<rparr>, EXIT_SUCCESS)"
      "data n' = data (database mc ! a)" "table_ok (length (database mc)) n'"
      using add_node_to_frequency_list_shape [OF assms] by blast
    moreover from hit have "add_node_to_frequency_list mc a b ok1 ok2 =
        add_node_to_frequency_list mc a b True True"
      by (simp add: add_node_to_frequency_list_def Let_def)
    ultimately show ?thesis
      using r assms(2,3) by (auto intro: wf_chain_update_node)
  next
    case miss
    assume r: "add_node_to_frequency_list mc a b ok1 ok2 = Inr (mc', EXIT_SUCCESS)"
    with miss have "ok1" "ok2"
      by (auto simp: add_node_to_frequency_list_def Let_def split: if_splits)
    moreover obtain n' where "add_node_to_frequency_list mc a b True True =
        Inr (mc\<lparr>database := (database mc)[a := n']\<rparr>, EXIT_SUCCESS)"
      "data n' = data (database mc ! a)" "table_ok (length (database mc)) n'"
      using add_node_to_frequency_list_shape [OF assms] by blast
    ultimately show ?thesis
      using r assms(2,3) by (auto intro: wf_chain_update_node)
  qed
  then show ?thesis
    using add_node_to_frequency_list_shape [OF assms] by blast
qed

text \<open>C4. Invariant: a call on a well-formed chain that returns \<open>EXIT_SUCCESS\<close>
  leaves the chain well formed, and with both allocations succeeding it does return
  \<open>EXIT_SUCCESS\<close>.\<close>

theorem add_node_to_frequency_list_wf:
  assumes "comp_contract mc" "wf_chain mc"
    and "a < length (database mc)" "b < length (database mc)"
  shows "(\<forall>mc' ok1 ok2. add_node_to_frequency_list mc a b ok1 ok2 = Inr (mc', EXIT_SUCCESS) \<longrightarrow>
            wf_chain mc') \<and>
         (\<exists>mc'. add_node_to_frequency_list mc a b True True = Inr (mc', EXIT_SUCCESS))"
  using wf_add_node_to_frequency_list [OF assms] .

subsection \<open>Frame\<close>

text \<open>Whatever it returns, \<open>add_node_to_frequency_list\<close> changes at most node
  \<open>a\<close>, and never its payload or the behaviours.\<close>

lemma add_node_to_frequency_list_frame:
  assumes "add_node_to_frequency_list mc a b ok1 ok2 = Inr (mc', st)"
  shows "\<exists>n'. mc' = mc\<lparr>database := (database mc)[a := n']\<rparr> \<and> data n' = data (database mc ! a)"
proof -
  let ?n = "database mc ! a"
  consider (e) e where "find_in_freq (comp_func mc) (database mc) (data (database mc ! b))
        (frequency_list ?n) (fre_list_size ?n) 0 = Inl e"
    | (s) i where "find_in_freq (comp_func mc) (database mc) (data (database mc ! b))
        (frequency_list ?n) (fre_list_size ?n) 0 = Inr (Some i)"
    | (n) "find_in_freq (comp_func mc) (database mc) (data (database mc ! b))
        (frequency_list ?n) (fre_list_size ?n) 0 = Inr None"
    by (metis not_None_eq sumE)
  then show ?thesis
  proof cases
    case e
    with assms show ?thesis by (simp add: add_node_to_frequency_list_def Let_def)
  next
    case (s i)
    with assms show ?thesis by (auto simp: add_node_to_frequency_list_def Let_def)
  next
    case n
    show ?thesis
    proof (cases "ok1 \<and> ok2")
      case True
      with n assms show ?thesis by (auto simp: add_node_to_frequency_list_def Let_def)
    next
      case False
      then consider "\<not> ok1" | "ok1" "\<not> ok2" by blast
      then show ?thesis
      proof cases
        case 1
        with n assms have "mc' = mc" by (simp add: add_node_to_frequency_list_def Let_def)
        then show ?thesis by (intro exI [of _ ?n]) simp
      next
        case 2
        with n assms show ?thesis by (auto simp: add_node_to_frequency_list_def Let_def)
      qed
    qed
  qed
qed

text \<open>A link on a table whose size is its length never reads out of range, and it
  changes no payload and no other node.\<close>

lemma add_node_to_frequency_list_consistent:
  assumes a: "a < length (database mc)"
    and sz: "fre_list_size (database mc ! a) = length (frequency_list (database mc ! a))"
  shows "\<exists>mc' st. add_node_to_frequency_list mc a b ok1 ok2 = Inr (mc', st) \<and>
           (st = EXIT_SUCCESS \<longrightarrow> fre_list_size (database mc' ! a) = length (frequency_list (database mc' ! a)))"
proof -
  let ?n = "database mc ! a"
  have "\<exists>r. find_in_freq (comp_func mc) (database mc) (data (database mc ! b))
      (frequency_list ?n) (fre_list_size ?n) 0 = Inr r"
    using find_in_freq_total [of "fre_list_size ?n" "frequency_list ?n" "comp_func mc" "database mc"
        "data (database mc ! b)" 0] sz by simp
  then obtain r where f: "find_in_freq (comp_func mc) (database mc) (data (database mc ! b))
      (frequency_list ?n) (fre_list_size ?n) 0 = Inr r" by blast
  show ?thesis
  proof (cases r)
    case None
    then show ?thesis using f a sz by (auto simp: add_node_to_frequency_list_def Let_def)
  next
    case (Some i)
    then show ?thesis using f a sz by (auto simp: add_node_to_frequency_list_def Let_def)
  qed
qed

lemma add_node_to_frequency_list_keeps:
  assumes "add_node_to_frequency_list mc a b ok1 ok2 = Inr (mc', st)"
  shows "map data (database mc') = map data (database mc) \<and> comp_func mc' = comp_func mc \<and>
    (\<forall>k. k \<noteq> a \<longrightarrow> database mc' ! k = database mc ! k)"
proof -
  obtain n' where mc': "mc' = mc\<lparr>database := (database mc)[a := n']\<rparr>" and d: "data n' = data (database mc ! a)"
    using add_node_to_frequency_list_frame [OF assms] by blast
  have "map data ((database mc)[a := n']) = map data (database mc)"
  proof (cases "a < length (database mc)")
    case True
    then have "(map data (database mc))[a := data n'] = map data (database mc)"
      using d by (metis list_update_id nth_map)
    then show ?thesis by (simp add: map_update)
  qed (simp add: list_update_beyond)
  then show ?thesis using mc' by simp
qed

text \<open>C26. The \<open>realloc\<close> failure path: adding a new target with the entry
  allocated but the \<open>realloc\<close> failing returns \<open>EXIT_FAILURE\<close> with the table's
  size already incremented, one past its array, so the chain is no longer well
  formed; retrying the same link then reads past the end of the array.\<close>

theorem add_node_to_frequency_list_realloc_failure:
  assumes c: "comp_contract mc" and wf: "wf_chain mc"
    and a: "a < length (database mc)" and b: "b < length (database mc)"
    and nb: "b \<notin> set (map markov_node (frequency_list (database mc ! a)))"
  shows "\<exists>mc'. add_node_to_frequency_list mc a b True False = Inr (mc', EXIT_FAILURE) \<and>
           fre_list_size (database mc' ! a) = Suc (length (frequency_list (database mc' ! a))) \<and>
           \<not> wf_chain mc' \<and> add_node_to_frequency_list mc' a b ok1 ok2 = Inl Out_of_bounds"
proof -
  let ?n = "database mc ! a"
  let ?mc' = "mc\<lparr>database := (database mc)[a := ?n\<lparr>fre_list_size := Suc (length (frequency_list ?n))\<rparr>]\<rparr>"
  have r: "add_node_to_frequency_list mc a b True False = Inr (?mc', EXIT_FAILURE)"
    using add_node_to_frequency_list_realloc_fail [OF assms] .
  have na: "database ?mc' ! a = ?n\<lparr>fre_list_size := Suc (length (frequency_list ?n))\<rparr>" using a by simp
  have dat: "data ((database mc)[a := ?n\<lparr>fre_list_size := Suc (length (frequency_list ?n))\<rparr>] ! k) =
      data (database mc ! k)" for k
    using a by (cases "k = a") simp_all
  have "\<not> table_ok (length (database ?mc')) (database ?mc' ! a)" using na by (simp add: table_ok_def)
  moreover have "database ?mc' ! a \<in> set (database ?mc')" using a by (simp add: set_update_memI)
  ultimately have nwf: "\<not> wf_chain ?mc'" unfolding wf_chain_def by blast
  have t: "table_ok (length (database mc)) ?n" using wf_chain_table [OF wf a] .
  have "\<forall>j < length (frequency_list ?n). 0 \<le> j \<longrightarrow>
      comp_func mc (data (database mc ! markov_node (frequency_list ?n ! j))) (data (database mc ! b)) \<noteq> 0"
  proof (intro allI impI)
    fix j assume j: "j < length (frequency_list ?n)"
    then have tj: "markov_node (frequency_list ?n ! j) < length (database mc)" using t by (auto simp: table_ok_def)
    have "markov_node (frequency_list ?n ! j) \<noteq> b" using nb j by (metis length_map nth_map nth_mem)
    then show "comp_func mc (data (database mc ! markov_node (frequency_list ?n ! j))) (data (database mc ! b)) \<noteq> 0"
      using wf tj b by (auto simp: wf_chain_def db_unique_def)
  qed
  then have "find_in_freq (comp_func mc) (database ?mc') (data (database ?mc' ! b)) (frequency_list ?n)
      (Suc (length (frequency_list ?n))) 0 = Inl Out_of_bounds"
    by (intro find_in_freq_overrun) (simp_all add: dat)
  then have "add_node_to_frequency_list ?mc' a b ok1 ok2 = Inl Out_of_bounds"
    using na by (simp add: add_node_to_frequency_list_def Let_def)
  with r na nwf show ?thesis by auto
qed

end
