(* ===== verification/Markov_Sample.thy ===== *)
theory Markov_Sample
  imports Markov_Freq
begin

text \<open>
  The random choices of the walk (\<open>src/markov_chain.c\<close>): \<open>get_random_number\<close>,
  the weighted choice of a successor \<open>get_next_random_node\<close> (the sum of the
  frequencies, the subtract-and-compare scan and its fallback), and the rejection
  sampling of a start node \<open>get_first_random_node\<close>, whose loop need not end and is
  therefore a \<open>partial_function (option)\<close>: \<open>None\<close> is "never returns".
  The scan is proved equal to a reference weighted choice over prefix sums, and each
  entry is proved to be chosen by exactly as many draws as its frequency.
\<close>

subsection \<open>Random numbers\<close>

text \<open>
  \<open>rand() % max_number\<close>: the \<open>k\<close>-th call of \<open>rand()\<close> returns \<open>rs k\<close>,
  which is non-negative; C's \<open>%\<close> truncates, so for a non-negative dividend it is the
  remainder by \<open>|max_number|\<close>; \<open>% 0\<close> is undefined behaviour.
\<close>

definition get_random_number :: "rand_source \<Rightarrow> nat \<Rightarrow> int \<Rightarrow> error + (int \<times> nat)" where
  "get_random_number rs k max_number =
     (if max_number = 0 then Inl Division_by_zero
      else Inr (int (rs k) mod \<bar>max_number\<bar>, Suc k))"

subsection \<open>The weighted choice\<close>

text \<open>\<open>total += (int)frequency_list[i]->frequency\<close> over the recorded size; a sum above
  \<open>INT_MAX\<close> is signed overflow.\<close>

function sum_frequencies :: "MarkovNodeFrequency list \<Rightarrow> nat \<Rightarrow> nat \<Rightarrow> int \<Rightarrow> error + int" where
  "sum_frequencies fl n i tot =
     (if i < n then
        (case nth_checked fl i of
           Inl e \<Rightarrow> Inl e
         | Inr f \<Rightarrow>
             let t = tot + int (frequency f) in
             if INT_MAX < t then Inl Int_overflow else sum_frequencies fl n (Suc i) t)
      else Inr tot)"
  by pat_completeness auto
termination
  by (relation "measure (\<lambda>(fl, n, i, tot). n - i)") auto

text \<open>The second loop: the first entry with \<open>rand_num < frequency\<close> is chosen,
  otherwise its frequency is subtracted and the scan goes on.\<close>

function choose_by_frequency :: "MarkovNodeFrequency list \<Rightarrow> nat \<Rightarrow> nat \<Rightarrow> int \<Rightarrow> error + nat option" where
  "choose_by_frequency fl n i r =
     (if i < n then
        (case nth_checked fl i of
           Inl e \<Rightarrow> Inl e
         | Inr f \<Rightarrow>
             if r < int (frequency f) then Inr (Some (markov_node f))
             else choose_by_frequency fl n (Suc i) (r - int (frequency f)))
      else Inr None)"
  by pat_completeness auto
termination
  by (relation "measure (\<lambda>(fl, n, i, r). n - i)") auto

declare sum_frequencies.simps [simp del] choose_by_frequency.simps [simp del]

text \<open>
  \<open>get_next_random_node\<close> on the current node: \<open>None\<close> is the \<open>NULL\<close>
  (\<open>EXIT_SUCCESS\<close> cast to a pointer) returned for an empty table; after the scan, the
  fallback draws a uniform index into the table.  The result carries the advanced
  counter of \<open>rand()\<close> calls.
\<close>

definition get_next_random_node ::
  "'a MarkovNode \<Rightarrow> rand_source \<Rightarrow> nat \<Rightarrow> error + (nat option \<times> nat)" where
  "get_next_random_node cur rs k =
     (if fre_list_size cur = 0 then Inr (None, k)
      else
        (case sum_frequencies (frequency_list cur) (fre_list_size cur) 0 0 of
           Inl e \<Rightarrow> Inl e
         | Inr tot \<Rightarrow>
             (case get_random_number rs k tot of
                Inl e \<Rightarrow> Inl e
              | Inr (r, k1) \<Rightarrow>
                  (case choose_by_frequency (frequency_list cur) (fre_list_size cur) 0 r of
                     Inl e \<Rightarrow> Inl e
                   | Inr (Some t) \<Rightarrow> Inr (Some t, k1)
                   | Inr None \<Rightarrow>
                       (case get_random_number rs k1 (int (fre_list_size cur)) of
                          Inl e \<Rightarrow> Inl e
                        | Inr (j, k2) \<Rightarrow>
                            (case nth_checked (frequency_list cur) (nat j) of
                               Inl e \<Rightarrow> Inl e
                             | Inr f \<Rightarrow> Inr (Some (markov_node f), k2)))))))"

declare get_random_number_def [markov_defs] get_next_random_node_def [markov_defs]

subsection \<open>Reference: weighted choice by prefix sums\<close>

text \<open>
  The specification's weighted choice: with weights \<open>ws\<close> and a draw \<open>r\<close> below
  their sum, the chosen index is the first \<open>j\<close> whose prefix sum through \<open>j\<close> exceeds
  \<open>r\<close>, i.e. the \<open>j\<close> with \<open>sum (take j ws) \<le> r < sum (take (j+1) ws)\<close>.
\<close>

definition weighted_pick :: "nat list \<Rightarrow> nat \<Rightarrow> nat option" where
  "weighted_pick ws r = find (\<lambda>j. r < sum_list (take (Suc j) ws)) [0..<length ws]"

subsection \<open>Start-node selection\<close>

text \<open>
  \<open>get_first_random_node\<close>: draw an index below the database size, walk the list to
  it, and retry while the node there is terminal.  The retry loop has no bound, so the
  function is defined in the option type: \<open>None\<close> is a loop that never ends, \<open>Some\<close>
  an answer or the undefined behaviour of \<open>rand() % 0\<close> on an empty database.
\<close>

partial_function (option) get_first_random_node ::
  "'a MarkovChain \<Rightarrow> rand_source \<Rightarrow> nat \<Rightarrow> (error + (nat \<times> nat)) option" where
  "get_first_random_node mc rs k =
     (case get_random_number rs k (int (length (database mc))) of
        Inl e \<Rightarrow> Some (Inl e)
      | Inr (r, k') \<Rightarrow>
          if is_last mc (data (database mc ! nat r)) then get_first_random_node mc rs k'
          else Some (Inr (nat r, k')))"

declare get_first_random_node.simps [code]

subsection \<open>Evaluation on concrete inputs\<close>

lemma get_random_number_pos:
  "0 < m \<Longrightarrow> get_random_number rs k m = Inr (int (rs k mod nat m), Suc k)"
  by (simp add: get_random_number_def zmod_int)

lemma sum_frequencies_step [markov_eval]:
  "i < n \<Longrightarrow> i < length fl \<Longrightarrow>
   sum_frequencies fl n i tot =
     (if INT_MAX < tot + int (frequency (fl ! i)) then Inl Int_overflow
      else sum_frequencies fl n (Suc i) (tot + int (frequency (fl ! i))))"
  by (subst sum_frequencies.simps) (simp add: Let_def)

lemma sum_frequencies_stop [markov_eval]:
  "\<not> i < n \<Longrightarrow> sum_frequencies fl n i tot = Inr tot"
  "i < n \<Longrightarrow> \<not> i < length fl \<Longrightarrow> sum_frequencies fl n i tot = Inl Out_of_bounds"
  by (subst sum_frequencies.simps; simp)+

lemma choose_by_frequency_step [markov_eval]:
  "i < n \<Longrightarrow> i < length fl \<Longrightarrow>
   choose_by_frequency fl n i r =
     (if r < int (frequency (fl ! i)) then Inr (Some (markov_node (fl ! i)))
      else choose_by_frequency fl n (Suc i) (r - int (frequency (fl ! i))))"
  by (subst choose_by_frequency.simps) simp

lemma choose_by_frequency_stop [markov_eval]:
  "\<not> i < n \<Longrightarrow> choose_by_frequency fl n i r = Inr None"
  "i < n \<Longrightarrow> \<not> i < length fl \<Longrightarrow> choose_by_frequency fl n i r = Inl Out_of_bounds"
  by (subst choose_by_frequency.simps; simp)+

subsection \<open>The reference weighted choice\<close>

lemma weighted_pick_Some_iff:
  assumes "j < length ws"
  shows "weighted_pick ws r = Some j \<longleftrightarrow>
           sum_list (take j ws) \<le> r \<and> r < sum_list (take (Suc j) ws)"
proof -
  let ?P = "\<lambda>j. r < sum_list (take (Suc j) ws)"
  have "weighted_pick ws r = Some j \<longleftrightarrow> ?P j \<and> (\<forall>i < j. \<not> ?P i)"
    using assms by (auto simp: weighted_pick_def find_Some_iff)
  also have "(\<forall>i < j. \<not> ?P i) \<longleftrightarrow> sum_list (take j ws) \<le> r"
  proof
    assume "\<forall>i < j. \<not> ?P i"
    then show "sum_list (take j ws) \<le> r"
      by (cases j) (simp_all add: not_less)
  next
    assume le: "sum_list (take j ws) \<le> r"
    show "\<forall>i < j. \<not> ?P i"
    proof (intro allI impI)
      fix i assume "i < j"
      then have "sum_list (take (Suc i) ws) \<le> sum_list (take j ws)"
        by (intro sum_list_take_mono) simp
      with le show "\<not> ?P i" by simp
    qed
  qed
  finally show ?thesis by blast
qed

lemma weighted_pick_below_sum:
  "r < sum_list ws \<Longrightarrow> \<exists>j < length ws. weighted_pick ws r = Some j"
proof -
  assume r: "r < sum_list ws"
  then have "\<exists>j \<in> set [0..<length ws]. r < sum_list (take (Suc j) ws)"
    by (cases ws rule: rev_cases) auto
  then obtain j where "weighted_pick ws r = Some j"
    by (metis (no_types, lifting) find_None_iff not_Some_eq weighted_pick_def)
  moreover then have "j < length ws"
    by (auto simp: weighted_pick_def find_Some_iff)
  ultimately show ?thesis by blast
qed

text \<open>Each index is chosen by exactly as many draws below the total as its weight.\<close>

lemma card_weighted_pick:
  assumes "j < length ws"
  shows "card {r. r < sum_list ws \<and> weighted_pick ws r = Some j} = ws ! j"
proof -
  have "{r. r < sum_list ws \<and> weighted_pick ws r = Some j} =
        {sum_list (take j ws) ..< sum_list (take (Suc j) ws)}"
    using assms sum_list_take_le [of "Suc j" ws]
    by (auto simp: weighted_pick_Some_iff)
  then show ?thesis
    using assms by (simp add: sum_list_take_Suc_nth)
qed

subsection \<open>The loops, characterised\<close>

lemma sum_frequencies_eq:
  "n \<le> length fl \<Longrightarrow> i \<le> n \<Longrightarrow> 0 \<le> tot \<Longrightarrow> tot \<le> INT_MAX \<Longrightarrow>
   sum_frequencies fl n i tot =
     (if INT_MAX < tot + int (sum_list (map frequency (drop i (take n fl))))
      then Inl Int_overflow
      else Inr (tot + int (sum_list (map frequency (drop i (take n fl))))))"
proof (induction fl n i tot rule: sum_frequencies.induct)
  case (1 fl n i tot)
  show ?case
  proof (cases "i < n")
    case False
    with "1.prems" show ?thesis by (subst sum_frequencies.simps) simp
  next
    case True
    with "1.prems" have il: "i < length fl" by simp
    then have nc: "nth_checked fl i = Inr (fl ! i)" by simp
    have "i < length (take n fl)" using True il by simp
    from Cons_nth_drop_Suc [OF this] True
    have dr: "drop i (take n fl) = fl ! i # drop (Suc i) (take n fl)" by simp
    let ?t = "tot + int (frequency (fl ! i))"
    show ?thesis
    proof (cases "INT_MAX < ?t")
      case True
      with \<open>i < n\<close> nc dr show ?thesis by (subst sum_frequencies.simps) simp
    next
      case False
      have "sum_frequencies fl n (Suc i) ?t =
          (if INT_MAX < ?t + int (sum_list (map frequency (drop (Suc i) (take n fl))))
           then Inl Int_overflow
           else Inr (?t + int (sum_list (map frequency (drop (Suc i) (take n fl))))))"
        using "1.IH" [OF \<open>i < n\<close> nc refl] False \<open>i < n\<close> "1.prems" by simp
      with \<open>i < n\<close> nc dr False show ?thesis
        by (subst sum_frequencies.simps) (simp add: Let_def add.assoc)
    qed
  qed
qed

lemma choose_by_frequency_eq:
  "n = length fl \<Longrightarrow> i \<le> n \<Longrightarrow> 0 \<le> r \<Longrightarrow>
   choose_by_frequency fl n i r =
     Inr (map_option (\<lambda>j. markov_node (fl ! j))
       (find (\<lambda>j. nat r + sum_list (take i (map frequency fl)) <
                  sum_list (take (Suc j) (map frequency fl))) [i..<n]))"
proof (induction fl n i r rule: choose_by_frequency.induct)
  case (1 fl n i r)
  let ?ws = "map frequency fl"
  show ?case
  proof (cases "i < n")
    case False
    with "1.prems" show ?thesis by (subst choose_by_frequency.simps) simp
  next
    case True
    with "1.prems" have nc: "nth_checked fl i = Inr (fl ! i)" by simp
    have up: "[i..<n] = i # [Suc i..<n]" using True by (simp add: upt_conv_Cons)
    have ps: "sum_list (take (Suc i) ?ws) = sum_list (take i ?ws) + frequency (fl ! i)"
      using True "1.prems" by (simp add: sum_list_take_Suc_nth)
    show ?thesis
    proof (cases "r < int (frequency (fl ! i))")
      case True
      with \<open>i < n\<close> nc up ps "1.prems" show ?thesis
        by (subst choose_by_frequency.simps) auto
    next
      case False
      let ?r = "r - int (frequency (fl ! i))"
      have "choose_by_frequency fl n (Suc i) ?r =
          Inr (map_option (\<lambda>j. markov_node (fl ! j))
            (find (\<lambda>j. nat ?r + sum_list (take (Suc i) ?ws) <
                       sum_list (take (Suc j) ?ws)) [Suc i..<n]))"
        using "1.IH" [OF \<open>i < n\<close> nc False] "1.prems" \<open>i < n\<close> False by simp
      moreover have "nat ?r + (sum_list (take i ?ws) + frequency (fl ! i)) =
          nat r + sum_list (take i ?ws)"
        using False by simp
      ultimately show ?thesis
        using \<open>i < n\<close> nc up ps False by (subst choose_by_frequency.simps) simp
    qed
  qed
qed

subsection \<open>Weighted sampling of the successor\<close>

lemma table_total_pos:
  assumes "table_ok sz cur" "frequency_list cur \<noteq> []"
  shows "0 < sum_list (map frequency (frequency_list cur))"
proof -
  obtain e where e: "e \<in> set (frequency_list cur)" using assms(2) by (cases "frequency_list cur") auto
  then have "0 < frequency e" using assms(1) by (simp add: table_ok_def)
  moreover have "frequency e \<le> sum_list (map frequency (frequency_list cur))"
    using e by (intro elem_le_sum_list) simp
  ultimately show ?thesis by simp
qed

lemma get_next_random_node_pick:
  assumes t: "table_ok sz cur" and ne: "frequency_list cur \<noteq> []"
    and fits: "int (sum_list (map frequency (frequency_list cur))) \<le> INT_MAX"
  shows "get_next_random_node cur rs k =
           Inr (map_option (\<lambda>j. markov_node (frequency_list cur ! j))
                  (weighted_pick (map frequency (frequency_list cur))
                     (rs k mod sum_list (map frequency (frequency_list cur)))), Suc k)
         \<and> weighted_pick (map frequency (frequency_list cur))
             (rs k mod sum_list (map frequency (frequency_list cur))) \<noteq> None"
proof -
  let ?fl = "frequency_list cur"
  let ?T = "sum_list (map frequency ?fl)"
  have sz: "fre_list_size cur = length ?fl" using t by (simp add: table_ok_def)
  have pos: "0 < ?T" using t ne by (rule table_total_pos)
  have sum: "sum_frequencies ?fl (fre_list_size cur) 0 0 = Inr (int ?T)"
    using fits sz by (simp add: sum_frequencies_eq)
  have rnd: "get_random_number rs k (int ?T) = Inr (int (rs k mod ?T), Suc k)"
    using pos by (simp add: get_random_number_pos)
  have ch: "choose_by_frequency ?fl (fre_list_size cur) 0 (int (rs k mod ?T)) =
      Inr (map_option (\<lambda>j. markov_node (?fl ! j)) (weighted_pick (map frequency ?fl) (rs k mod ?T)))"
    using sz by (simp add: choose_by_frequency_eq weighted_pick_def)
  obtain j where "weighted_pick (map frequency ?fl) (rs k mod ?T) = Some j"
    using weighted_pick_below_sum [of "rs k mod ?T" "map frequency ?fl"] pos by auto
  then show ?thesis
    using sz ne sum rnd ch by (simp add: get_next_random_node_def)
qed

lemma get_next_random_node_Some:
  assumes "table_ok sz cur" "frequency_list cur \<noteq> []"
    and "int (sum_list (map frequency (frequency_list cur))) \<le> INT_MAX"
  shows "\<exists>j < length (frequency_list cur).
           weighted_pick (map frequency (frequency_list cur))
             (rs k mod sum_list (map frequency (frequency_list cur))) = Some j \<and>
           get_next_random_node cur rs k = Inr (Some (markov_node (frequency_list cur ! j)), Suc k)"
proof -
  obtain j where j: "weighted_pick (map frequency (frequency_list cur))
      (rs k mod sum_list (map frequency (frequency_list cur))) = Some j"
    using get_next_random_node_pick [OF assms] by blast
  then have "j < length (frequency_list cur)"
    by (auto simp: weighted_pick_def find_Some_iff)
  with j show ?thesis using get_next_random_node_pick [OF assms] by auto
qed

text \<open>C1. Weighted sampling: on a consistent, non-empty frequency table whose total
  fits in an \<open>int\<close>, \<open>get_next_random_node\<close> makes exactly one call of
  \<open>rand()\<close>, never reaches its fallback, and returns the target of the entry that the
  reference weighted choice picks for the draw \<open>rand() % total\<close>; that entry exists
  and is in range.\<close>

theorem get_next_random_node_weighted:
  assumes "table_ok sz cur" "frequency_list cur \<noteq> []"
    and "int (sum_list (map frequency (frequency_list cur))) \<le> INT_MAX"
  shows "\<exists>j < length (frequency_list cur).
           weighted_pick (map frequency (frequency_list cur))
             (rs k mod sum_list (map frequency (frequency_list cur))) = Some j \<and>
           get_next_random_node cur rs k = Inr (Some (markov_node (frequency_list cur ! j)), Suc k)"
  using get_next_random_node_Some [OF assms] .

text \<open>C2. Selection probability: of the draws \<open>r\<close> below the total \<open>T\<close>, exactly
  \<open>frequency\<close> many make \<open>get_next_random_node\<close> choose a given entry's target, so
  under a uniform draw each target is chosen with probability frequency / \<open>T\<close>.\<close>

theorem get_next_random_node_frequency:
  assumes t: "table_ok sz cur" and ne: "frequency_list cur \<noteq> []"
    and fits: "int (sum_list (map frequency (frequency_list cur))) \<le> INT_MAX"
    and j: "j < length (frequency_list cur)"
  shows "card {r. r < sum_list (map frequency (frequency_list cur)) \<and>
            get_next_random_node cur (\<lambda>_. r) 0 =
              Inr (Some (markov_node (frequency_list cur ! j)), 1)} =
         frequency (frequency_list cur ! j)"
proof -
  let ?fl = "frequency_list cur"
  let ?ws = "map frequency ?fl"
  have dist: "distinct (map markov_node ?fl)" using t by (simp add: table_ok_def)
  have "{r. r < sum_list ?ws \<and> get_next_random_node cur (\<lambda>_. r) 0 =
            Inr (Some (markov_node (?fl ! j)), 1)} =
        {r. r < sum_list ?ws \<and> weighted_pick ?ws r = Some j}"
  proof (intro Collect_cong conj_cong refl)
    fix r assume r: "r < sum_list ?ws"
    obtain i where i: "i < length ?fl" "weighted_pick ?ws r = Some i"
      "get_next_random_node cur (\<lambda>_. r) 0 = Inr (Some (markov_node (?fl ! i)), Suc 0)"
      using get_next_random_node_Some [OF t ne fits, of "\<lambda>_. r" 0] r by auto
    have "markov_node (?fl ! i) = markov_node (?fl ! j) \<longleftrightarrow> i = j"
      using dist i(1) j by (simp add: nth_eq_iff_index_eq [symmetric])
    then show "get_next_random_node cur (\<lambda>_. r) 0 = Inr (Some (markov_node (?fl ! j)), 1) \<longleftrightarrow>
        weighted_pick ?ws r = Some j"
      using i by auto
  qed
  then show ?thesis using j by (simp add: card_weighted_pick)
qed

subsection \<open>Start-node selection, proved\<close>

lemma get_first_random_node_retry [markov_eval]:
  "database mc \<noteq> [] \<Longrightarrow> is_last mc (data (database mc ! (rs k mod length (database mc)))) \<Longrightarrow>
   get_first_random_node mc rs k = get_first_random_node mc rs (Suc k)"
  by (subst get_first_random_node.simps) (simp add: get_random_number_pos)

lemma get_first_random_node_found [markov_eval]:
  "database mc \<noteq> [] \<Longrightarrow> \<not> is_last mc (data (database mc ! (rs k mod length (database mc)))) \<Longrightarrow>
   get_first_random_node mc rs k = Some (Inr (rs k mod length (database mc), Suc k))"
  by (subst get_first_random_node.simps) (simp add: get_random_number_pos)

lemma get_first_random_node_step:
  "database mc \<noteq> [] \<Longrightarrow>
   get_first_random_node mc rs k =
     (let i = rs k mod length (database mc) in
      if is_last mc (data (database mc ! i)) then get_first_random_node mc rs (Suc k)
      else Some (Inr (i, Suc k)))"
  by (subst get_first_random_node.simps) (simp add: get_random_number_pos Let_def)

lemma get_first_random_node_first_hit:
  assumes ne: "database mc \<noteq> []" and km: "k \<le> m"
    and hit: "\<not> is_last mc (data (database mc ! (rs m mod length (database mc))))"
    and miss: "\<forall>j. k \<le> j \<and> j < m \<longrightarrow> is_last mc (data (database mc ! (rs j mod length (database mc))))"
  shows "get_first_random_node mc rs k = Some (Inr (rs m mod length (database mc), Suc m))"
  using km miss
proof (induction "m - k" arbitrary: k)
  case 0
  then have "k = m" by simp
  with hit ne show ?case by (simp add: get_first_random_node_step)
next
  case (Suc d)
  then have km: "k < m" by simp
  with Suc.prems have "is_last mc (data (database mc ! (rs k mod length (database mc))))" by simp
  then have "get_first_random_node mc rs k = get_first_random_node mc rs (Suc k)"
    using ne by (simp add: get_first_random_node_step)
  also have "\<dots> = Some (Inr (rs m mod length (database mc), Suc m))"
    using Suc.hyps(1) [of "Suc k"] Suc.hyps(2) Suc.prems km by simp
  finally show ?case .
qed

text \<open>C5. Start selection returns exactly the first non-terminal draw: if draw \<open>m\<close>
  (at or after the current call count \<open>k\<close>) lands on a non-terminal node and all draws
  before it since \<open>k\<close> land on terminal ones, \<open>get_first_random_node\<close> terminates
  with the node \<open>rs m mod size\<close> after \<open>m + 1\<close> calls of \<open>rand()\<close>.\<close>

theorem get_first_random_node_first_nonterminal:
  assumes "database mc \<noteq> []" "k \<le> m"
    and "\<not> is_last mc (data (database mc ! (rs m mod length (database mc))))"
    and "\<forall>j. k \<le> j \<and> j < m \<longrightarrow> is_last mc (data (database mc ! (rs j mod length (database mc))))"
  shows "get_first_random_node mc rs k = Some (Inr (rs m mod length (database mc), Suc m))"
  using get_first_random_node_first_hit [OF assms] .

text \<open>The retry loop on a store of terminal nodes only: every draw is retried, so
  the fixpoint has no value.  By the fixpoint induction of \<open>partial_function\<close>:
  no approximation of the loop returns on this chain.\<close>

lemma get_first_random_node_diverges:
  assumes ne: "database mc \<noteq> []"
    and all: "\<forall>i < length (database mc). is_last mc (data (database mc ! i))"
  shows "get_first_random_node mc rs k = None"
proof -
  have "get_first_random_node mc rs k \<noteq> Some res" for res
  proof
    assume ret: "get_first_random_node mc rs k = Some res"
    have "False"
    proof (rule get_first_random_node.raw_induct [where P = "\<lambda>mc' rs' k' res. mc' = mc \<longrightarrow> False",
        OF _ ret, THEN mp])
      fix f :: "'a MarkovChain \<Rightarrow> rand_source \<Rightarrow> nat \<Rightarrow> (error + nat \<times> nat) option"
        and mc' rs' k' res'
      assume IH: "\<And>mc' rs' k' res'. f mc' rs' k' = Some res' \<Longrightarrow> mc' = mc \<longrightarrow> False"
        and step: "(case get_random_number rs' k' (int (length (database mc'))) of
                Inl e \<Rightarrow> Some (Inl e)
              | Inr (r, k'') \<Rightarrow>
                  if is_last mc' (data (database mc' ! nat r)) then f mc' rs' k''
                  else Some (Inr (nat r, k''))) = Some res'"
      show "mc' = mc \<longrightarrow> False"
      proof
        assume "mc' = mc"
        with step ne all have "f mc rs' (Suc k') = Some res'"
          by (simp add: get_random_number_pos)
        then show False using IH by blast
      qed
    qed simp
    then show False .
  qed
  then show ?thesis by (cases "get_first_random_node mc rs k") auto
qed

text \<open>What start selection returns is a non-terminal node of the store, again by
  fixpoint induction.\<close>

lemma get_first_random_node_Inr:
  assumes ret: "get_first_random_node mc rs k = Some (Inr (i, k'))"
  shows "i < length (database mc) \<and> \<not> is_last mc (data (database mc ! i))"
proof -
  have "\<forall>j k2. Inr (i, k') = (Inr (j, k2) :: error + nat \<times> nat) \<longrightarrow>
      j < length (database mc) \<and> \<not> is_last mc (data (database mc ! j))"
  proof (rule get_first_random_node.raw_induct [where P = "\<lambda>mc' rs' k0 res. mc' = mc \<longrightarrow>
        (\<forall>j k2. res = Inr (j, k2) \<longrightarrow> j < length (database mc) \<and> \<not> is_last mc (data (database mc ! j)))",
        OF _ ret, THEN mp])
    fix f :: "'a MarkovChain \<Rightarrow> rand_source \<Rightarrow> nat \<Rightarrow> (error + nat \<times> nat) option"
      and mc' rs' k0 res'
    assume IH: "\<And>mc' rs' k0 res'. f mc' rs' k0 = Some res' \<Longrightarrow> mc' = mc \<longrightarrow>
        (\<forall>j k2. res' = Inr (j, k2) \<longrightarrow> j < length (database mc) \<and> \<not> is_last mc (data (database mc ! j)))"
      and step: "(case get_random_number rs' k0 (int (length (database mc'))) of
              Inl e \<Rightarrow> Some (Inl e)
            | Inr (r, k2) \<Rightarrow>
                if is_last mc' (data (database mc' ! nat r)) then f mc' rs' k2
                else Some (Inr (nat r, k2))) = Some res'"
    show "mc' = mc \<longrightarrow>
        (\<forall>j k2. res' = Inr (j, k2) \<longrightarrow> j < length (database mc) \<and> \<not> is_last mc (data (database mc ! j)))"
    proof
      assume m: "mc' = mc"
      show "\<forall>j k2. res' = Inr (j, k2) \<longrightarrow> j < length (database mc) \<and> \<not> is_last mc (data (database mc ! j))"
      proof (cases "database mc = []")
        case True
        then show ?thesis using step m by (auto simp: get_random_number_def)
      next
        case False
        let ?r = "rs' k0 mod length (database mc)"
        have "?r < length (database mc)" using False by simp
        moreover have "(if is_last mc (data (database mc ! ?r)) then f mc rs' (Suc k0)
            else Some (Inr (?r, Suc k0))) = Some res'"
          using step [unfolded m] False by (simp add: get_random_number_pos split: if_splits)
        ultimately show ?thesis using IH [of mc rs' "Suc k0" res'] by (auto split: if_splits)
      qed
    qed
  qed simp
  then show ?thesis by blast
qed

text \<open>C6. Rejection sampling without a bound: when every stored node is terminal,
  \<open>get_first_random_node\<close> never returns (its value is \<open>None\<close>), whatever the
  random sequence; on an empty database it performs \<open>rand() % 0\<close>.\<close>

theorem get_first_random_node_all_terminal:
  assumes ne: "database mc \<noteq> []"
    and all: "\<forall>i < length (database mc). is_last mc (data (database mc ! i))"
  shows "get_first_random_node mc rs k = None \<and>
         get_first_random_node (mc\<lparr>database := []\<rparr>) rs k = Some (Inl Division_by_zero)"
proof -
  have "get_first_random_node (mc\<lparr>database := []\<rparr>) rs k = Some (Inl Division_by_zero)"
    by (subst get_first_random_node.simps) (simp add: get_random_number_def)
  then show ?thesis using get_first_random_node_diverges [OF ne all] by simp
qed

end
