(* ===== verification/Markov_Walk.thy ===== *)
theory Markov_Walk
  imports Markov_Sample
begin

text \<open>
  The walk generator \<open>generate_random_sequence\<close> of \<open>src/markov_chain.c\<close>: choose a
  start (the given node, or \<open>get_first_random_node\<close>), print it and a blank, then up
  to \<open>max_length - 1\<close> times draw a successor with \<open>get_next_random_node\<close>, print it,
  stop after a terminal node, print a blank otherwise.  The printed text is kept as a
  list of events, \<open>Render i\<close> for \<open>print_func\<close> on the payload of node \<open>i\<close> and
  \<open>Space\<close> for \<open>printf(" ")\<close>; \<open>render_output\<close> turns them into the characters
  written.  Shown here: the walk follows recorded transitions, emits at most
  \<open>max_length\<close> states, ends on a terminal state or at the length bound, never crashes
  on a chain whose non-terminal nodes all have successors, and dereferences \<open>NULL\<close>
  at a non-terminal dead end.
\<close>

datatype out_event = Render nat | Space

text \<open>The \<open>for\<close> loop, one equation per remaining iteration.\<close>

fun walk_loop ::
  "'a MarkovChain \<Rightarrow> rand_source \<Rightarrow> nat \<Rightarrow> nat \<Rightarrow> nat \<Rightarrow> error + (out_event list \<times> nat)" where
  "walk_loop mc rs cur 0 k = Inr ([], k)"
| "walk_loop mc rs cur (Suc m) k =
     (case get_next_random_node (database mc ! cur) rs k of
        Inl e \<Rightarrow> Inl e
      | Inr (None, k') \<Rightarrow> Inl Null_dereference
      | Inr (Some nx, k') \<Rightarrow>
          if is_last mc (data (database mc ! nx)) then Inr ([Render nx], k')
          else
            (case walk_loop mc rs nx m k' of
               Inl e \<Rightarrow> Inl e
             | Inr (out, k'') \<Rightarrow> Inr (Render nx # Space # out, k'')))"

text \<open>
  \<open>first_node\<close> is \<open>None\<close> for \<open>NULL\<close>.  The result is \<open>None\<close> when the start
  selection never returns; the loop runs \<open>max_length - 1\<close> times, no time when
  \<open>max_length \<le> 1\<close>.
\<close>

definition generate_random_sequence ::
  "'a MarkovChain \<Rightarrow> nat option \<Rightarrow> int \<Rightarrow> rand_source \<Rightarrow> nat \<Rightarrow>
   (error + (out_event list \<times> nat)) option" where
  "generate_random_sequence mc first_node max_length rs k =
     (case (case first_node of None \<Rightarrow> get_first_random_node mc rs k | Some i \<Rightarrow> Some (Inr (i, k))) of
        None \<Rightarrow> None
      | Some (Inl e) \<Rightarrow> Some (Inl e)
      | Some (Inr (start, k1)) \<Rightarrow>
          Some (case walk_loop mc rs start (nat (max_length - 1)) k1 of
                  Inl e \<Rightarrow> Inl e
                | Inr (out, k2) \<Rightarrow> Inr (Render start # Space # out, k2)))"

definition render_output :: "'a MarkovChain \<Rightarrow> out_event list \<Rightarrow> string" where
  "render_output mc out =
     concat (map (\<lambda>ev. case ev of Render i \<Rightarrow> print_func mc (data (database mc ! i)) | Space \<Rightarrow> '' '') out)"

fun renders :: "out_event list \<Rightarrow> nat list" where
  "renders [] = []"
| "renders (Render i # es) = i # renders es"
| "renders (Space # es) = renders es"

text \<open>A path of the chain: each node is followed by one of its recorded targets.\<close>

fun chain_path :: "'a MarkovChain \<Rightarrow> nat list \<Rightarrow> bool" where
  "chain_path mc (a # b # ns) =
     (b \<in> set (map markov_node (frequency_list (database mc ! a))) \<and> chain_path mc (b # ns))"
| "chain_path mc ns = True"

declare generate_random_sequence_def [markov_defs] render_output_def [markov_defs]

text \<open>On a well-formed chain where every non-terminal node has a successor and every
  total fits in an \<open>int\<close>, the loop from a node with a successor runs to the end.\<close>

definition no_dead_ends :: "'a MarkovChain \<Rightarrow> bool" where
  "no_dead_ends mc \<longleftrightarrow>
     (\<forall>i < length (database mc).
        (\<not> is_last mc (data (database mc ! i)) \<longrightarrow> frequency_list (database mc ! i) \<noteq> []) \<and>
        int (sum_list (map frequency (frequency_list (database mc ! i)))) \<le> INT_MAX)"

subsection \<open>What the successor draw can return\<close>

lemma choose_by_frequency_target:
  "choose_by_frequency fl n i r = Inr (Some t) \<Longrightarrow> t \<in> set (map markov_node fl)"
proof (induction fl n i r rule: choose_by_frequency.induct)
  case (1 fl n i r)
  show ?case
  proof (cases "i < n \<and> i < length fl")
    case True
    then have nc: "nth_checked fl i = Inr (fl ! i)" by simp
    show ?thesis
    proof (cases "r < int (frequency (fl ! i))")
      case True
      with "1.prems" nc \<open>i < n \<and> i < length fl\<close> show ?thesis
        by (subst (asm) choose_by_frequency.simps) auto
    next
      case False
      with "1.prems" nc \<open>i < n \<and> i < length fl\<close>
      have "choose_by_frequency fl n (Suc i) (r - int (frequency (fl ! i))) = Inr (Some t)"
        by (subst (asm) choose_by_frequency.simps) simp
      then show ?thesis using "1.IH" [OF _ nc False] \<open>i < n \<and> i < length fl\<close> by simp
    qed
  next
    case False
    with "1.prems" show ?thesis
      by (subst (asm) choose_by_frequency.simps) (auto simp: nth_checked_def split: if_splits)
  qed
qed

lemma get_next_random_node_target:
  "get_next_random_node cur rs k = Inr (Some t, k') \<Longrightarrow>
   t \<in> set (map markov_node (frequency_list cur))"
  unfolding get_next_random_node_def
  by (auto simp: nth_checked_def split: if_splits sum.splits option.splits prod.splits
      dest: choose_by_frequency_target)

lemma get_next_random_node_None:
  "get_next_random_node cur rs k = Inr (None, k') \<Longrightarrow> fre_list_size cur = 0"
  unfolding get_next_random_node_def
  by (auto simp: nth_checked_def split: if_splits sum.splits option.splits prod.splits)

subsection \<open>The loop\<close>

lemma walk_loop_path:
  "walk_loop mc rs cur m k = Inr (out, k') \<Longrightarrow> chain_path mc (cur # renders out)"
proof (induction m arbitrary: cur k out)
  case 0
  then show ?case by simp
next
  case (Suc m)
  then obtain nx k1 where nx: "get_next_random_node (database mc ! cur) rs k = Inr (Some nx, k1)"
    by (auto split: sum.splits option.splits prod.splits)
  then have edge: "nx \<in> set (map markov_node (frequency_list (database mc ! cur)))"
    by (rule get_next_random_node_target)
  show ?case
  proof (cases "is_last mc (data (database mc ! nx))")
    case True
    with Suc.prems nx edge show ?thesis by auto
  next
    case False
    with Suc.prems nx obtain out' where "walk_loop mc rs nx m k1 = Inr (out', k')"
      and "out = Render nx # Space # out'"
      by (auto split: sum.splits prod.splits)
    with Suc.IH edge show ?thesis by simp
  qed
qed

lemma walk_loop_shape:
  "walk_loop mc rs cur m k = Inr (out, k') \<Longrightarrow>
     length (renders out) \<le> m \<and>
     (out = [] \<and> m = 0 \<or>
      (out \<noteq> [] \<and> (\<exists>t. last out = Render t \<and> is_last mc (data (database mc ! t)))) \<or>
      (out \<noteq> [] \<and> last out = Space \<and> length (renders out) = m))"
proof (induction m arbitrary: cur k out)
  case 0
  then show ?case by simp
next
  case (Suc m)
  then obtain nx k1 where nx: "get_next_random_node (database mc ! cur) rs k = Inr (Some nx, k1)"
    by (auto split: sum.splits option.splits prod.splits)
  show ?case
  proof (cases "is_last mc (data (database mc ! nx))")
    case True
    with Suc.prems nx show ?thesis by auto
  next
    case False
    with Suc.prems nx obtain out' where w: "walk_loop mc rs nx m k1 = Inr (out', k')"
      and o: "out = Render nx # Space # out'"
      by (auto split: sum.splits prod.splits)
    from Suc.IH [OF w] o show ?thesis by (cases out') auto
  qed
qed

lemma walk_loop_dead_end:
  "frequency_list (database mc ! cur) = [] \<Longrightarrow> fre_list_size (database mc ! cur) = 0 \<Longrightarrow>
   walk_loop mc rs cur (Suc m) k = Inl Null_dereference"
  by (simp add: get_next_random_node_def)

lemma walk_loop_total:
  assumes wf: "wf_chain mc" and nd: "no_dead_ends mc"
    and cur: "cur < length (database mc)" and ne: "frequency_list (database mc ! cur) \<noteq> []"
  shows "\<exists>out k'. walk_loop mc rs cur m k = Inr (out, k')"
  using cur ne
proof (induction m arbitrary: cur k)
  case 0
  then show ?case by simp
next
  case (Suc m)
  have t: "table_ok (length (database mc)) (database mc ! cur)"
    using wf Suc.prems(1) by (rule wf_chain_table)
  have fits: "int (sum_list (map frequency (frequency_list (database mc ! cur)))) \<le> INT_MAX"
    using nd Suc.prems(1) by (simp add: no_dead_ends_def)
  obtain j where j: "j < length (frequency_list (database mc ! cur))"
    and nx: "get_next_random_node (database mc ! cur) rs k =
      Inr (Some (markov_node (frequency_list (database mc ! cur) ! j)), Suc k)"
    using get_next_random_node_Some [OF t Suc.prems(2) fits] by blast
  let ?nx = "markov_node (frequency_list (database mc ! cur) ! j)"
  have nxl: "?nx < length (database mc)" using t j by (auto simp: table_ok_def)
  show ?case
  proof (cases "is_last mc (data (database mc ! ?nx))")
    case True
    with nx show ?thesis by simp
  next
    case False
    with nd nxl have "frequency_list (database mc ! ?nx) \<noteq> []" by (simp add: no_dead_ends_def)
    with Suc.IH [OF nxl] obtain out k' where "walk_loop mc rs ?nx m (Suc k) = Inr (out, k')"
      by blast
    with nx False show ?thesis by simp
  qed
qed

subsection \<open>The walk\<close>

lemma generate_random_sequence_Inr:
  "generate_random_sequence mc fn max_length rs k = Some (Inr (out, k')) \<Longrightarrow>
   \<exists>s k1 out'. out = Render s # Space # out' \<and>
      walk_loop mc rs s (nat (max_length - 1)) k1 = Inr (out', k')"
  by (auto simp: generate_random_sequence_def split: option.splits sum.splits prod.splits)

text \<open>On a well-formed chain a walk from a stored node stays among the stored nodes.\<close>

lemma chain_path_bound:
  "wf_chain mc \<Longrightarrow> chain_path mc ns \<Longrightarrow> ns \<noteq> [] \<Longrightarrow> hd ns < length (database mc) \<Longrightarrow>
   \<forall>x \<in> set ns. x < length (database mc)"
proof (induction mc ns rule: chain_path.induct)
  case (1 mc a b ns)
  have "table_ok (length (database mc)) (database mc ! a)"
    using 1(2,5) by (simp add: wf_chain_def)
  then have "b < length (database mc)" using 1(3) by (auto simp: table_ok_def)
  then show ?case using 1 by simp
qed auto

lemma generate_random_sequence_nodes:
  assumes wf: "wf_chain mc" and g: "generate_random_sequence mc None ml rs k = Some (Inr (out, k'))"
  shows "\<forall>r \<in> set (renders out). r < length (database mc)"
proof -
  obtain s k1 out' where s: "get_first_random_node mc rs k = Some (Inr (s, k1))"
    and out: "out = Render s # Space # out'" and w: "walk_loop mc rs s (nat (ml - 1)) k1 = Inr (out', k')"
    using g by (auto simp: generate_random_sequence_def split: option.splits sum.splits prod.splits)
  have "s < length (database mc)" using get_first_random_node_Inr [OF s] by simp
  then show ?thesis using chain_path_bound [OF wf walk_loop_path [OF w]] out by simp
qed

text \<open>Consecutive states of a path are a recorded transition.\<close>

lemma chain_path_nth:
  "chain_path mc ns \<Longrightarrow> Suc j < length ns \<Longrightarrow>
   ns ! Suc j \<in> set (map markov_node (frequency_list (database mc ! (ns ! j))))"
proof (induction mc ns arbitrary: j rule: chain_path.induct)
  case (1 mc a b ns)
  then show ?case by (cases j) auto
qed auto

text \<open>The loop stops at the first terminal state: every state it prints before its
  last one is non-terminal.\<close>

lemma walk_loop_stops_at_terminal:
  "walk_loop mc rs cur m k = Inr (out, k') \<Longrightarrow> Suc i < length (renders out) \<Longrightarrow>
   \<not> is_last mc (data (database mc ! (renders out ! i)))"
proof (induction m arbitrary: cur k out i)
  case 0
  then show ?case by simp
next
  case (Suc m)
  obtain nx k1 where g: "get_next_random_node (database mc ! cur) rs k = Inr (Some nx, k1)"
    using Suc.prems(1) by (auto split: sum.splits option.splits prod.splits)
  show ?case
  proof (cases "is_last mc (data (database mc ! nx))")
    case True
    then show ?thesis using Suc.prems g by auto
  next
    case False
    then obtain out' where w: "walk_loop mc rs nx m k1 = Inr (out', k')" and o: "out = Render nx # Space # out'"
      using Suc.prems(1) g by (auto split: sum.splits)
    show ?thesis
    proof (cases i)
      case 0
      then show ?thesis using False o by simp
    next
      case (Suc i')
      then show ?thesis using Suc.IH [OF w, of i'] Suc.prems(2) o by simp
    qed
  qed
qed

text \<open>C8. Safety of the walk: every state printed after the first is a recorded
  transition target of the state printed before it.\<close>

theorem generate_random_sequence_path:
  assumes "generate_random_sequence mc fn max_length rs k = Some (Inr (out, k'))"
  shows "renders out \<noteq> [] \<and> chain_path mc (renders out)"
  using generate_random_sequence_Inr [OF assms] walk_loop_path by fastforce

text \<open>C9. Length bound and output convention: a finished walk prints at most
  \<open>max(1, max_length)\<close> states; it ends either with a terminal state, or, at exactly
  that many states, with a trailing blank after the last one; and it stops at the
  first terminal state after the start (the \<open>break\<close>): no state strictly between
  the first and the last is terminal.\<close>

theorem generate_random_sequence_shape:
  assumes "generate_random_sequence mc fn max_length rs k = Some (Inr (out, k'))"
  shows "length (renders out) \<le> max 1 (nat max_length) \<and>
         ((\<exists>t. last out = Render t \<and> is_last mc (data (database mc ! t))) \<or>
          (last out = Space \<and> length (renders out) = max 1 (nat max_length))) \<and>
         (\<forall>i. 0 < i \<and> Suc i < length (renders out) \<longrightarrow>
            \<not> is_last mc (data (database mc ! (renders out ! i))))"
proof -
  obtain s k1 out' where o: "out = Render s # Space # out'"
    and w: "walk_loop mc rs s (nat (max_length - 1)) k1 = Inr (out', k')"
    using generate_random_sequence_Inr [OF assms] by blast
  have m: "Suc (nat (max_length - 1)) = max 1 (nat max_length)" by simp
  have len: "length (renders out) = Suc (length (renders out'))" using o by simp
  have sh: "length (renders out') \<le> nat (max_length - 1)" using walk_loop_shape [OF w] by blast
  have nt: "\<forall>i. 0 < i \<and> Suc i < length (renders out) \<longrightarrow>
      \<not> is_last mc (data (database mc ! (renders out ! i)))"
  proof (intro allI impI)
    fix i assume i: "0 < i \<and> Suc i < length (renders out)"
    then obtain i' where "i = Suc i'" by (cases i) auto
    then show "\<not> is_last mc (data (database mc ! (renders out ! i)))"
      using walk_loop_stops_at_terminal [OF w, of i'] i o by simp
  qed
  from walk_loop_shape [OF w] consider
      (empty) "out' = []" "nat (max_length - 1) = 0"
    | (terminal) t where "out' \<noteq> []" "last out' = Render t" "is_last mc (data (database mc ! t))"
    | (bound) "out' \<noteq> []" "last out' = Space" "length (renders out') = nat (max_length - 1)"
    by (elim conjE disjE exE) simp_all
  then show ?thesis
  proof cases
    case empty
    with o m len nt show ?thesis by simp
  next
    case (terminal t)
    with o m len sh nt show ?thesis by auto
  next
    case bound
    with o m len nt show ?thesis by simp
  qed
qed

text \<open>C10. No crash: on a well-formed chain in which every non-terminal node has a
  successor and every total fits in an \<open>int\<close>, a walk from a given node with a
  successor returns normally, whatever the random sequence and the length bound.\<close>

theorem generate_random_sequence_no_crash:
  assumes "wf_chain mc" "no_dead_ends mc"
    and "s < length (database mc)" "frequency_list (database mc ! s) \<noteq> []"
  shows "\<exists>out k'. generate_random_sequence mc (Some s) max_length rs k = Some (Inr (out, k'))"
  using walk_loop_total [OF assms, of rs "nat (max_length - 1)" k]
  by (auto simp: generate_random_sequence_def)

text \<open>C11. Dead end: when the walk is at a node with an empty table and the length
  bound allows another step, \<open>get_next_random_node\<close> returns \<open>NULL\<close> and the walk
  dereferences it, instead of ending normally as the specification says.\<close>

theorem generate_random_sequence_dead_end:
  assumes "frequency_list (database mc ! s) = []" "fre_list_size (database mc ! s) = 0"
    and "2 \<le> max_length"
  shows "generate_random_sequence mc (Some s) max_length rs k = Some (Inl Null_dereference)"
proof -
  have "nat (max_length - 1) = Suc (nat (max_length - 2))" using assms(3) by arith
  then show ?thesis using walk_loop_dead_end [OF assms(1,2)]
    by (simp add: generate_random_sequence_def)
qed

end
