(* ===== verification/Markov_Teardown.thy ===== *)
theory Markov_Teardown
  imports Markov_Freq
begin

text \<open>
  Teardown, \<open>free_markov_chain\<close> of \<open>src/markov_chain.c\<close>.  The model has no heap;
  what teardown does is the sequence of objects it passes to \<open>free\<close>, named by their
  place in the chain: the chain and its list, and for the node at position \<open>v\<close> its
  list cell, the \<open>MarkovNode\<close>, the payload copy, the frequency array and the
  entries of that array.  The specification's teardown releases every state, every
  transition table, every payload copy and the store; \<open>owned_objects\<close> is that set,
  and \<open>owner\<close> says which object holds the pointer to which.  The lemmas show that on
  a chain whose tables have their recorded sizes every owned object is freed exactly
  once and no object is freed before the objects it owns, and that the table left by
  a failed \<open>realloc\<close> makes teardown read past the array.
\<close>

datatype heap_obj =
    Chain_obj
  | Store_obj
  | Cell_obj nat
  | State_obj nat
  | Payload_obj nat
  | Table_obj nat
  | Entry_obj nat nat

text \<open>\<open>for (int i = 0; i < fre_list_size; ++i) free(frequency_list[i]);\<close>: the entries
  of the table of the node at position \<open>v\<close>; a read past the array is the
  out-of-bounds read it is in C.\<close>

function free_entries :: "nat \<Rightarrow> MarkovNodeFrequency list \<Rightarrow> nat \<Rightarrow> nat \<Rightarrow> error + heap_obj list" where
  "free_entries v fl n j =
     (if j < n then
        (case nth_checked fl j of
           Inl e \<Rightarrow> Inl e
         | Inr _ \<Rightarrow> map_sum id (Cons (Entry_obj v j)) (free_entries v fl n (Suc j)))
      else Inr [])"
  by pat_completeness auto
termination
  by (relation "measure (\<lambda>(v, fl, n, j). n - j)") auto

text \<open>The \<open>while (index_node)\<close> loop: the entries, then the array, the payload, the
  node, and the list cell, in the order of the code.\<close>

fun free_nodes :: "'a MarkovNode list \<Rightarrow> nat \<Rightarrow> error + heap_obj list" where
  "free_nodes [] v = Inr []"
| "free_nodes (n # ns) v =
     (case free_entries v (frequency_list n) (fre_list_size n) 0 of
        Inl e \<Rightarrow> Inl e
      | Inr es \<Rightarrow>
          map_sum id (\<lambda>fs. es @ [Table_obj v, Payload_obj v, State_obj v, Cell_obj v] @ fs)
            (free_nodes ns (Suc v)))"

text \<open>Then the list and the chain, and \<open>*ptr_chain = NULL\<close> (the \<open>None\<close> returned).\<close>

definition free_markov_chain :: "'a MarkovChain \<Rightarrow> error + ('a MarkovChain option \<times> heap_obj list)" where
  "free_markov_chain mc =
     (case free_nodes (database mc) 0 of
        Inl e \<Rightarrow> Inl e
      | Inr fs \<Rightarrow> Inr (None, fs @ [Store_obj, Chain_obj]))"

subsection \<open>What the chain owns\<close>

definition node_objects :: "nat \<Rightarrow> 'a MarkovNode \<Rightarrow> heap_obj list" where
  "node_objects v n =
     map (Entry_obj v) [0..<length (frequency_list n)] @ [Table_obj v, Payload_obj v, State_obj v, Cell_obj v]"

definition owned_objects :: "'a MarkovChain \<Rightarrow> heap_obj set" where
  "owned_objects mc =
     {Chain_obj, Store_obj} \<union> (\<Union>v < length (database mc). set (node_objects v (database mc ! v)))"

text \<open>The object that holds the pointer to an object.\<close>

fun owner :: "heap_obj \<Rightarrow> heap_obj option" where
  "owner (Entry_obj v j) = Some (Table_obj v)"
| "owner (Table_obj v) = Some (State_obj v)"
| "owner (Payload_obj v) = Some (State_obj v)"
| "owner (State_obj v) = Some (Cell_obj v)"
| "owner (Cell_obj v) = Some Store_obj"
| "owner Store_obj = Some Chain_obj"
| "owner Chain_obj = None"

text \<open>Every object freed in the sequence has its owner freed after it.\<close>

fun owners_later :: "heap_obj list \<Rightarrow> bool" where
  "owners_later [] = True"
| "owners_later (x # xs) = ((case owner x of None \<Rightarrow> True | Some y \<Rightarrow> y \<in> set xs) \<and> owners_later xs)"

declare free_entries.simps [simp del]

subsection \<open>Teardown of consistent tables\<close>

lemma free_entries_ok:
  "j \<le> length fl \<Longrightarrow> free_entries v fl (length fl) j = Inr (map (Entry_obj v) [j..<length fl])"
proof (induction "length fl - j" arbitrary: j)
  case 0
  then show ?case by (simp add: free_entries.simps)
next
  case (Suc m)
  then have "j < length fl" by simp
  with Suc show ?case by (subst free_entries.simps) (simp add: upt_conv_Cons)
qed

lemma free_nodes_ok:
  "\<forall>n \<in> set ns. fre_list_size n = length (frequency_list n) \<Longrightarrow>
   free_nodes ns v = Inr (concat (map (\<lambda>i. node_objects (v + i) (ns ! i)) [0..<length ns]))"
proof (induction ns arbitrary: v)
  case Nil
  then show ?case by simp
next
  case (Cons n ns)
  have "map (\<lambda>i. node_objects (v + i) ((n # ns) ! i)) [0..<length (n # ns)] =
      node_objects v n # map (\<lambda>i. node_objects (Suc v + i) (ns ! i)) [0..<length ns]"
    by (simp add: upt_conv_Cons map_Suc_upt [symmetric] del: upt_Suc)
  with Cons show ?case by (simp add: free_entries_ok node_objects_def)
qed

text \<open>The sequence of frees on a chain whose tables have their recorded sizes.\<close>

lemma free_markov_chain_ok:
  "\<forall>n \<in> set (database mc). fre_list_size n = length (frequency_list n) \<Longrightarrow>
   free_markov_chain mc =
     Inr (None, concat (map (\<lambda>v. node_objects v (database mc ! v)) [0..<length (database mc)]) @
                [Store_obj, Chain_obj])"
  by (simp add: free_markov_chain_def free_nodes_ok)

lemma wf_chain_sizes: "wf_chain mc \<Longrightarrow> \<forall>n \<in> set (database mc). fre_list_size n = length (frequency_list n)"
  by (simp add: wf_chain_def table_ok_def)

lemma free_markov_chain_wf: "wf_chain mc \<Longrightarrow> \<exists>fs. free_markov_chain mc = Inr (None, fs)"
  using free_markov_chain_ok [OF wf_chain_sizes] by blast

lemma node_objects_distinct: "distinct (node_objects v n)"
  by (auto simp: node_objects_def distinct_map inj_on_def)

lemma node_objects_of: "x \<in> set (node_objects v n) \<Longrightarrow> x \<noteq> Store_obj \<and> x \<noteq> Chain_obj \<and>
   (\<forall>w. x \<in> set (node_objects w m) \<longrightarrow> w = v)"
  by (auto simp: node_objects_def)

lemma teardown_distinct:
  "distinct (concat (map (\<lambda>v. node_objects v (ns ! v)) [0..<k]) @ [Store_obj, Chain_obj])"
proof -
  have "distinct (concat (map (\<lambda>v. node_objects v (ns ! v)) [0..<k]))"
  proof (induction k)
    case (Suc k)
    have "x \<notin> set (node_objects k (ns ! k))" if "x \<in> set (node_objects v (ns ! v))" "v < k" for x v
      using that node_objects_of [of x v] by auto
    then show ?case using Suc node_objects_distinct by auto
  qed simp
  moreover have "Store_obj \<notin> set (node_objects v n)" "Chain_obj \<notin> set (node_objects v n)" for v and n :: "'a MarkovNode"
    by (auto simp: node_objects_def)
  ultimately show ?thesis by auto
qed

lemma owners_later_entries:
  "Table_obj v \<in> set rest \<Longrightarrow> owners_later rest \<Longrightarrow> owners_later (map (Entry_obj v) js @ rest)"
  by (induction js) simp_all

lemma owners_later_blocks:
  "owners_later (concat (map (\<lambda>v. node_objects v (ns ! v)) vs) @ [Store_obj, Chain_obj])"
proof (induction vs)
  case (Cons v vs)
  let ?rest = "concat (map (\<lambda>v. node_objects v (ns ! v)) vs) @ [Store_obj, Chain_obj]"
  have "owners_later ([Table_obj v, Payload_obj v, State_obj v, Cell_obj v] @ ?rest)"
    using Cons by simp
  then show ?case
    using owners_later_entries [of v "[Table_obj v, Payload_obj v, State_obj v, Cell_obj v] @ ?rest"]
    by (simp add: node_objects_def)
qed simp

lemma teardown_set:
  "set (concat (map (\<lambda>v. node_objects v (database mc ! v)) [0..<length (database mc)]) @ [Store_obj, Chain_obj]) =
   owned_objects mc"
  by (auto simp: owned_objects_def)

subsection \<open>Teardown after a failed \<open>realloc\<close>\<close>

lemma free_entries_overrun:
  "length fl < n \<Longrightarrow> j \<le> length fl \<Longrightarrow> free_entries v fl n j = Inl Out_of_bounds"
proof (induction "length fl - j" arbitrary: j)
  case 0
  then show ?case by (subst free_entries.simps) simp
next
  case (Suc m)
  then have "j < length fl" by simp
  with Suc show ?case by (subst free_entries.simps) simp
qed

lemma free_nodes_overrun:
  "k < length ns \<Longrightarrow> (\<forall>i < k. fre_list_size (ns ! i) = length (frequency_list (ns ! i))) \<Longrightarrow>
   length (frequency_list (ns ! k)) < fre_list_size (ns ! k) \<Longrightarrow> free_nodes ns v = Inl Out_of_bounds"
proof (induction ns arbitrary: k v)
  case (Cons n ns)
  show ?case
  proof (cases k)
    case 0
    then show ?thesis using Cons.prems by (simp add: free_entries_overrun)
  next
    case (Suc k')
    then have "free_nodes ns (Suc v) = Inl Out_of_bounds"
      using Cons.prems by (intro Cons.IH) auto
    moreover have "fre_list_size n = length (frequency_list n)" using Cons.prems(2) Suc by auto
    ultimately show ?thesis by (simp add: free_entries_ok)
  qed
qed simp

lemma realloc_fail_sizes:
  assumes wf: "wf_chain mc" and a: "a < length (database mc)"
  shows "\<forall>i < a. fre_list_size ((database mc)[a := (database mc ! a)\<lparr>fre_list_size := s\<rparr>] ! i) =
           length (frequency_list ((database mc)[a := (database mc ! a)\<lparr>fre_list_size := s\<rparr>] ! i))"
  using wf_chain_sizes [OF wf] a by simp

section \<open>Properties\<close>

text \<open>C28. Teardown of a well-formed chain frees every object the chain owns (every
  frequency entry, every table, payload copy, node and list cell, the list and the
  chain), each exactly once, frees no object before the objects it owns, and
  \<open>NULL\<close>s the caller's pointer.\<close>

theorem free_markov_chain_releases_owned:
  assumes "wf_chain mc"
  shows "\<exists>fs. free_markov_chain mc = Inr (None, fs) \<and> distinct fs \<and>
           set fs = owned_objects mc \<and> owners_later fs"
  using free_markov_chain_ok [OF wf_chain_sizes [OF assms]] teardown_distinct teardown_set
    owners_later_blocks by blast

text \<open>C29. Teardown after the \<open>realloc\<close> failure of \<open>add_node_to_frequency_list\<close>: the
  table whose size was incremented past its array makes \<open>free_markov_chain\<close> read
  \<open>frequency_list[fre_list_size - 1]\<close>, one past the array, so a program that frees
  its chain after the failure has undefined behaviour.\<close>

theorem realloc_failure_breaks_teardown:
  assumes c: "comp_contract mc" and wf: "wf_chain mc"
    and a: "a < length (database mc)" and b: "b < length (database mc)"
    and nb: "b \<notin> set (map markov_node (frequency_list (database mc ! a)))"
  shows "\<exists>mc'. add_node_to_frequency_list mc a b True False = Inr (mc', EXIT_FAILURE) \<and>
           free_markov_chain mc' = Inl Out_of_bounds"
proof -
  let ?db = "(database mc)[a := (database mc ! a)\<lparr>fre_list_size := Suc (length (frequency_list (database mc ! a)))\<rparr>]"
  have "free_nodes ?db 0 = Inl Out_of_bounds"
    using a realloc_fail_sizes [OF wf a] by (intro free_nodes_overrun [of a]) simp_all
  then show ?thesis
    using add_node_to_frequency_list_realloc_fail [OF c wf a b nb] by (simp add: free_markov_chain_def)
qed

end
