(* ===== verification/Tweets.thy ===== *)
theory Tweets
  imports Markov_Walk Markov_Teardown
begin

text \<open>
  The tweets client \<open>src/tweets_generator.c\<close>: its behaviours over C strings
  (\<open>comp_func\<close> is \<open>strcmp\<close>, \<open>copy_func\<close> is \<open>strcpy\<close> into a fresh buffer,
  \<open>check_is_last\<close> tests for a final \<open>'.'\<close>, \<open>print_func\<close> prints the word),
  \<open>create_chain\<close>, the reading of the file by \<open>fgets\<close> into chunks of at most
  \<open>MAX_LINE - 1\<close> characters, the tokenizer \<open>strtok\<close> with the delimiters
  \<open>" \n\t\r"\<close>, and \<open>fill_database\<close>, which adds every token and links it to the
  previous token of the same chunk, stopping after \<open>words_to_read\<close> words, and
  \<open>main\<close> (\<open>tweets_main\<close>, with the tweet loop \<open>tweets_loop\<close> and the
  \<open>free_markov_chain\<close> of its exits).  A C string is
  the prefix of a HOL string before its first NUL.  The lemmas show that filling
  keeps the invariant \<open>tweets_state\<close> and refines the abstract store fed with the
  token stream, with and without a word limit, and give the program's behaviour on
  concrete files, on its error paths, after a failed \<open>realloc\<close> and on a file of
  sentence-final words only.
\<close>

subsection \<open>C strings\<close>

definition c_str :: "string \<Rightarrow> string" where
  "c_str s = takeWhile (\<lambda>c. c \<noteq> CHR 0x00) s"

text \<open>\<open>strcmp\<close> compares the characters as \<open>unsigned char\<close> up to the first
  difference or the end of either string.\<close>

fun strcmp_chars :: "string \<Rightarrow> string \<Rightarrow> int" where
  "strcmp_chars [] [] = 0"
| "strcmp_chars [] (d # ds) = - int (of_char d)"
| "strcmp_chars (c # cs) [] = int (of_char c)"
| "strcmp_chars (c # cs) (d # ds) =
     (if c = d then strcmp_chars cs ds else int (of_char c) - int (of_char d))"

definition strcmp :: "string \<Rightarrow> string \<Rightarrow> int" where
  "strcmp a b = strcmp_chars (c_str a) (c_str b)"

subsection \<open>The behaviours\<close>

definition tweets_print_func :: "string \<Rightarrow> string" where
  "tweets_print_func a = c_str a"

definition tweets_comp_func :: "string \<Rightarrow> string \<Rightarrow> int" where
  "tweets_comp_func a b = strcmp a b"

text \<open>\<open>malloc(strlen(data) + 1)\<close> and \<open>strcpy\<close>: the copy is the C string of the
  argument.  (A failed \<open>malloc\<close> here returns \<open>NULL\<close>, which \<open>add_to_database\<close>
  stores without a check; that path is not modelled.)\<close>

definition tweets_copy_func :: "string \<Rightarrow> string" where
  "tweets_copy_func a = c_str a"

text \<open>\<open>word[strlen(word) - 1] == '.'\<close>; tokens are never empty, so the read before
  the string for an empty word does not arise and is modelled as \<open>False\<close>.\<close>

definition tweets_check_is_last :: "string \<Rightarrow> bool" where
  "tweets_check_is_last a = (c_str a \<noteq> [] \<and> last (c_str a) = CHR ''.'')"

text \<open>\<open>free_func\<close>, which \<open>create_chain\<close> stores in \<open>free_data\<close>: its argument is
  taken as the address of a chain pointer and the chain is torn down.  No code of
  the repository calls \<open>free_data\<close>, so the record has no such field.\<close>

definition tweets_free_func :: "string MarkovChain \<Rightarrow> error + (string MarkovChain option \<times> heap_obj list)" where
  "tweets_free_func mc = free_markov_chain mc"

text \<open>\<open>create_chain\<close>: two allocations, the chain and its list.\<close>

definition tweets_create_chain :: "bool \<Rightarrow> bool \<Rightarrow> string MarkovChain option" where
  "tweets_create_chain ok_chain ok_list =
     (if ok_chain \<and> ok_list then
        Some \<lparr>database = [], comp_func = tweets_comp_func, copy_func = tweets_copy_func,
              is_last = tweets_check_is_last, print_func = tweets_print_func\<rparr>
      else None)"

subsection \<open>Reading and tokenizing\<close>

definition MAX_LINE :: nat where
  "MAX_LINE = 1000"

text \<open>\<open>fgets(line, MAX_LINE, fp)\<close> reads through the next newline, but at most
  \<open>MAX_LINE - 1\<close> characters; the file is the list of the chunks it returns.\<close>

function fgets_lines :: "string \<Rightarrow> string list" where
  "fgets_lines s =
     (if s = [] then []
      else
        let n = min (MAX_LINE - 1) (Suc (length (takeWhile (\<lambda>c. c \<noteq> CHR 0x0A) s))) in
        take n s # fgets_lines (drop n s))"
  by pat_completeness auto
termination
  by (relation "measure length") (auto simp: MAX_LINE_def)

definition DELIMITERS :: string where
  "DELIMITERS = [CHR '' '', CHR 0x0A, CHR 0x09, CHR 0x0D]"

text \<open>\<open>strtok\<close> on a chunk: the maximal runs of non-delimiters of its C string, the
  current run kept reversed in \<open>acc\<close>.\<close>

fun strtok_acc :: "string \<Rightarrow> string \<Rightarrow> string list" where
  "strtok_acc [] acc = (if acc = [] then [] else [rev acc])"
| "strtok_acc (c # cs) acc =
     (if c \<in> set DELIMITERS then (if acc = [] then strtok_acc cs [] else rev acc # strtok_acc cs [])
      else strtok_acc cs (c # acc))"

definition strtok_tokens :: "string \<Rightarrow> string list" where
  "strtok_tokens line = strtok_acc (c_str line) []"

subsection \<open>Filling the database\<close>

abbreviation MAX_WORD_TO_READ :: int where
  "MAX_WORD_TO_READ \<equiv> -1"

text \<open>
  The inner \<open>while (token)\<close> loop over the tokens of one chunk.  The state is the
  chain, \<open>prev\<close>, \<open>words_count\<close> and the allocation counter; \<open>Some st\<close> is a
  \<open>return st\<close> out of \<open>fill_database\<close>.  Each call of \<open>add_to_database\<close> is given
  three allocation outcomes and each call of \<open>add_node_to_frequency_list\<close> two; the
  code ignores the code returned by the latter.
\<close>

fun fill_line ::
  "string MarkovChain \<Rightarrow> string list \<Rightarrow> nat option \<Rightarrow> int \<Rightarrow> nat \<Rightarrow> alloc_source \<Rightarrow> nat \<Rightarrow>
   error + (string MarkovChain \<times> nat \<times> nat \<times> status option)" where
  "fill_line mc [] prev wtr cnt al a = Inr (mc, cnt, a, None)"
| "fill_line mc (tok # toks) prev wtr cnt al a =
     (case add_to_database mc tok (al a) (al (a + 1)) (al (a + 2)) of
        (mc1, None) \<Rightarrow> Inr (mc1, cnt, a + 3, Some EXIT_FAILURE)
      | (mc1, Some nn) \<Rightarrow>
          (case (case prev of
                   None \<Rightarrow> Inr mc1
                 | Some p \<Rightarrow> map_sum id fst (add_node_to_frequency_list mc1 p nn (al (a + 3)) (al (a + 4)))) of
             Inl e \<Rightarrow> Inl e
           | Inr mc2 \<Rightarrow>
               if wtr \<noteq> MAX_WORD_TO_READ \<and> int (Suc cnt) = wtr
               then Inr (mc2, Suc cnt, a + 5, Some EXIT_SUCCESS)
               else fill_line mc2 toks (Some nn) wtr (Suc cnt) al (a + 5)))"

text \<open>The outer \<open>while (fgets(...))\<close> loop; \<open>prev\<close> is reset for every chunk.\<close>

fun fill_lines ::
  "string MarkovChain \<Rightarrow> string list \<Rightarrow> int \<Rightarrow> nat \<Rightarrow> alloc_source \<Rightarrow> nat \<Rightarrow>
   error + (string MarkovChain \<times> status)" where
  "fill_lines mc [] wtr cnt al a = Inr (mc, EXIT_SUCCESS)"
| "fill_lines mc (l # ls) wtr cnt al a =
     (case fill_line mc (strtok_tokens l) None wtr cnt al a of
        Inl e \<Rightarrow> Inl e
      | Inr (mc', cnt', a', Some st) \<Rightarrow> Inr (mc', st)
      | Inr (mc', cnt', a', None) \<Rightarrow> fill_lines mc' ls wtr cnt' al a')"

definition fill_database ::
  "string \<Rightarrow> int \<Rightarrow> string MarkovChain \<Rightarrow> alloc_source \<Rightarrow> error + (string MarkovChain \<times> status)" where
  "fill_database file words_to_read mc al = fill_lines mc (fgets_lines file) words_to_read 0 al 0"

text \<open>The state a tweets chain keeps while it is filled: the tweets behaviours, a
  well-formed chain, and payloads that are C strings.\<close>

definition tweets_state :: "string MarkovChain \<Rightarrow> bool" where
  "tweets_state mc \<longleftrightarrow>
     comp_func mc = tweets_comp_func \<and> copy_func mc = tweets_copy_func \<and>
     is_last mc = tweets_check_is_last \<and> wf_chain mc \<and>
     (\<forall>n \<in> set (database mc). CHR 0x00 \<notin> set (data n))"

text \<open>The specification of the links: \<open>tweets_words\<close> is the part of \<open>tweets_state\<close> that
  holds whatever the allocation outcomes; \<open>line_bigrams\<close> are the pairs of consecutive
  tokens of one line of the file; \<open>links_within P\<close> says every recorded transition
  stays in the store and joins a pair of words in \<open>P\<close>.\<close>

definition tweets_words :: "string MarkovChain \<Rightarrow> bool" where
  "tweets_words mc \<longleftrightarrow>
     comp_func mc = tweets_comp_func \<and> copy_func mc = tweets_copy_func \<and>
     (\<forall>n \<in> set (database mc). CHR 0x00 \<notin> set (data n))"

definition line_bigrams :: "string \<Rightarrow> (string \<times> string) set" where
  "line_bigrams input =
     (\<Union>l \<in> set (fgets_lines input). set (zip (strtok_tokens l) (tl (strtok_tokens l))))"

definition links_within :: "(string \<times> string) set \<Rightarrow> string MarkovChain \<Rightarrow> bool" where
  "links_within P mc \<longleftrightarrow>
     (\<forall>i < length (database mc). \<forall>t \<in> set (map markov_node (frequency_list (database mc ! i))).
        t < length (database mc) \<and> (data (database mc ! i), data (database mc ! t)) \<in> P)"

subsection \<open>The program\<close>

definition MIN_ARGC :: nat where "MIN_ARGC = 4"
definition MAX_ARGC :: nat where "MAX_ARGC = 5"
definition MAX_TWEET :: int where "MAX_TWEET = 20"

text \<open>
  The loop \<open>for (int i = 1; i <= num_of_tweets; ++i)\<close> of \<open>main\<close>: each pass
  generates one tweet from a random first word, at most \<open>MAX_TWEET\<close> words long.
  The result lists the tweets with their numbers; \<open>None\<close> is a pass whose
  \<open>get_first_random_node\<close> never returns, and \<open>++i\<close> past \<open>INT_MAX\<close> is the
  signed overflow it is in C.
\<close>

function tweets_loop ::
  "string MarkovChain \<Rightarrow> rand_source \<Rightarrow> nat \<Rightarrow> int \<Rightarrow> int \<Rightarrow>
   (error + ((int \<times> out_event list) list \<times> nat)) option" where
  "tweets_loop mc rs k i num_of_tweets =
     (if num_of_tweets < i then Some (Inr ([], k))
      else
        case generate_random_sequence mc None MAX_TWEET rs k of
          None \<Rightarrow> None
        | Some (Inl e) \<Rightarrow> Some (Inl e)
        | Some (Inr (out, k')) \<Rightarrow>
            if i = INT_MAX then Some (Inl Int_overflow)
            else
              (case tweets_loop mc rs k' (i + 1) num_of_tweets of
                 None \<Rightarrow> None
               | Some (Inl e) \<Rightarrow> Some (Inl e)
               | Some (Inr (ts, k'')) \<Rightarrow> Some (Inr ((i, out) # ts, k''))))"
  by pat_completeness auto
termination
  by (relation "measure (\<lambda>(mc, rs, k, i, n). nat (n + 1 - i))") auto

text \<open>
  \<open>main\<close>: the argument count check, \<open>fopen\<close> (\<open>None\<close> is a failed open, after
  which the code calls \<open>fclose(NULL)\<close>), \<open>srand(seed)\<close> (the generator
  \<open>srand seed\<close>), the optional word limit \<open>argv[4]\<close>, \<open>create_chain\<close> (the
  first two allocations), \<open>fill_database\<close> (the allocations after them) and the
  tweet loop.  The arguments are taken as already parsed by \<open>sscanf\<close>.  The result
  is the exit code with the tweets printed.
\<close>

definition tweets_main ::
  "nat \<Rightarrow> int \<Rightarrow> int \<Rightarrow> int \<Rightarrow> string option \<Rightarrow> (int \<Rightarrow> rand_source) \<Rightarrow> alloc_source \<Rightarrow>
   (error + (status \<times> (int \<times> out_event list) list)) option" where
  "tweets_main argc seed num_of_tweets words_arg file srand al =
     (if argc \<noteq> MAX_ARGC \<and> argc \<noteq> MIN_ARGC then Some (Inr (EXIT_FAILURE, []))
      else
        case file of
          None \<Rightarrow> Some (Inl Null_dereference)
        | Some text \<Rightarrow>
            let words_to_read = (if argc = MAX_ARGC then words_arg else MAX_WORD_TO_READ) in
            (case tweets_create_chain (al 0) (al 1) of
               None \<Rightarrow> Some (Inr (EXIT_FAILURE, []))
             | Some mc \<Rightarrow>
                 (case fill_database text words_to_read mc (\<lambda>i. al (i + 2)) of
                    Inl e \<Rightarrow> Some (Inl e)
                  | Inr (mc', EXIT_FAILURE) \<Rightarrow>
                      (case free_markov_chain mc' of
                         Inl e \<Rightarrow> Some (Inl e)
                       | Inr _ \<Rightarrow> Some (Inr (EXIT_FAILURE, [])))
                  | Inr (mc', EXIT_SUCCESS) \<Rightarrow>
                      (case tweets_loop mc' (srand seed) 0 1 num_of_tweets of
                         None \<Rightarrow> None
                       | Some (Inl e) \<Rightarrow> Some (Inl e)
                       | Some (Inr (ts, k)) \<Rightarrow>
                           (case free_markov_chain mc' of
                              Inl e \<Rightarrow> Some (Inl e)
                            | Inr _ \<Rightarrow> Some (Inr (EXIT_SUCCESS, ts)))))))"

text \<open>The input of the specification's word-chain scenario, two lines of text.\<close>

definition scenario_text :: string where
  "scenario_text = ''the cat sat.'' @ [CHR 0x0A] @ ''the dog ran.'' @ [CHR 0x0A]"

text \<open>The chain that the scenario builds: the five distinct words in the order of
  their first occurrence, each linked to the words that follow it.\<close>

definition scenario_chain :: "string MarkovChain" where
  "scenario_chain =
     \<lparr>database =
        [\<lparr>data = ''the'', frequency_list = [\<lparr>markov_node = 1, frequency = 1\<rparr>, \<lparr>markov_node = 3, frequency = 1\<rparr>],
          fre_list_size = 2\<rparr>,
         \<lparr>data = ''cat'', frequency_list = [\<lparr>markov_node = 2, frequency = 1\<rparr>], fre_list_size = 1\<rparr>,
         \<lparr>data = ''sat.'', frequency_list = [], fre_list_size = 0\<rparr>,
         \<lparr>data = ''dog'', frequency_list = [\<lparr>markov_node = 4, frequency = 1\<rparr>], fre_list_size = 1\<rparr>,
         \<lparr>data = ''ran.'', frequency_list = [], fre_list_size = 0\<rparr>],
      comp_func = tweets_comp_func, copy_func = tweets_copy_func, is_last = tweets_check_is_last,
      print_func = tweets_print_func\<rparr>"

declare fgets_lines.simps [simp del] tweets_loop.simps [simp del]

subsection \<open>C strings and \<open>strcmp\<close>\<close>

lemma c_str_no_nul: "CHR 0x00 \<notin> set (c_str s)"
  by (auto simp: c_str_def dest: set_takeWhileD)

lemma c_str_idem [simp]: "c_str (c_str s) = c_str s"
  by (simp add: c_str_def takeWhile_idem)

lemma c_str_id: "CHR 0x00 \<notin> set s \<Longrightarrow> c_str s = s"
  unfolding c_str_def by (rule takeWhile_eq_all_conv [THEN iffD2]) blast

lemma strcmp_chars_eq_0:
  "CHR 0x00 \<notin> set a \<Longrightarrow> CHR 0x00 \<notin> set b \<Longrightarrow> strcmp_chars a b = 0 \<longleftrightarrow> a = b"
proof (induction a b rule: strcmp_chars.induct)
  case (2 d ds)
  then have "d \<noteq> CHR 0x00" by auto
  then have "of_char d \<noteq> (of_char (CHR 0x00) :: nat)"
    using of_char_eq_iff [where 'a = nat, of d "CHR 0x00"] by blast
  then show ?case by simp
next
  case (3 c cs)
  then have "c \<noteq> CHR 0x00" by auto
  then have "of_char c \<noteq> (of_char (CHR 0x00) :: nat)"
    using of_char_eq_iff [where 'a = nat, of c "CHR 0x00"] by blast
  then show ?case by simp
next
  case (4 c cs d ds)
  then show ?case by (auto simp: of_char_eq_iff)
qed simp

lemma strcmp_eq_0: "strcmp a b = 0 \<longleftrightarrow> c_str a = c_str b"
  by (simp add: strcmp_def strcmp_chars_eq_0 c_str_no_nul)

text \<open>The tweets behaviours meet the engine's contract: \<open>strcmp\<close> returning 0 is
  equality of C strings, and the copy has the same C string.\<close>

lemma tweets_comp_contract:
  "comp_func mc = tweets_comp_func \<Longrightarrow> copy_func mc = tweets_copy_func \<Longrightarrow> comp_contract mc"
  by (simp add: comp_contract_def tweets_comp_func_def tweets_copy_func_def strcmp_eq_0)

subsection \<open>Reading and tokenizing\<close>

lemma fgets_lines_concat: "concat (fgets_lines s) = s"
proof (induction s rule: fgets_lines.induct)
  case (1 s)
  then show ?case by (subst fgets_lines.simps) (simp add: Let_def)
qed

lemma fgets_lines_bounds: "l \<in> set (fgets_lines s) \<Longrightarrow> l \<noteq> [] \<and> length l < MAX_LINE"
proof (induction s rule: fgets_lines.induct)
  case (1 s)
  show ?case
  proof (cases "s = []")
    case True
    with "1.prems" show ?thesis by (subst (asm) fgets_lines.simps) simp
  next
    case False
    with "1.prems" "1.IH" show ?thesis
      by (subst (asm) fgets_lines.simps) (auto simp: Let_def MAX_LINE_def)
  qed
qed

lemma strtok_acc_tokens:
  "set acc \<inter> set DELIMITERS = {} \<Longrightarrow> CHR 0x00 \<notin> set acc \<Longrightarrow> CHR 0x00 \<notin> set s \<Longrightarrow>
   t \<in> set (strtok_acc s acc) \<Longrightarrow>
   t \<noteq> [] \<and> set t \<inter> set DELIMITERS = {} \<and> CHR 0x00 \<notin> set t"
  by (induction s acc rule: strtok_acc.induct) (auto split: if_splits)

lemma strtok_acc_concat:
  "concat (strtok_acc s acc) = rev acc @ filter (\<lambda>c. c \<notin> set DELIMITERS) s"
  by (induction s acc rule: strtok_acc.induct) auto

lemma fgets_lines_Nil [markov_eval]: "fgets_lines [] = []"
  by (simp add: fgets_lines.simps)

lemma fgets_lines_Cons [markov_eval]:
  "s \<noteq> [] \<Longrightarrow>
   fgets_lines s =
     take (min (MAX_LINE - 1) (Suc (length (takeWhile (\<lambda>c. c \<noteq> CHR 0x0A) s)))) s #
     fgets_lines (drop (min (MAX_LINE - 1) (Suc (length (takeWhile (\<lambda>c. c \<noteq> CHR 0x0A) s)))) s)"
  by (subst fgets_lines.simps) (simp add: Let_def)

lemma strtok_tokens_no_nul: "t \<in> set (strtok_tokens l) \<Longrightarrow> CHR 0x00 \<notin> set t"
  using strtok_acc_tokens [of "[]" "c_str l" t] c_str_no_nul by (simp add: strtok_tokens_def)

subsection \<open>Filling preserves the state and refines the abstract store\<close>

lemma tweets_exact:
  assumes "tweets_state mc" "CHR 0x00 \<notin> set x"
  shows "(\<forall>y \<in> set (map data (database mc)). comp_func mc y x = 0 \<longleftrightarrow> y = x) \<and>
         copy_func mc x = x"
  using assms by (auto simp: tweets_state_def tweets_comp_func_def tweets_copy_func_def
      strcmp_eq_0 c_str_id)

lemma add_to_database_tweets:
  assumes st: "tweets_state mc" and x: "CHR 0x00 \<notin> set x"
  shows "\<exists>mc1 i. add_to_database mc x True True True = (mc1, Some i) \<and> tweets_state mc1 \<and>
           i < length (database mc1) \<and> length (database mc) \<le> length (database mc1) \<and>
           map data (database mc1) = store_insert (map data (database mc)) x"
proof -
  obtain i where i: "snd (add_to_database mc x True True True) = Some i"
    and m: "map data (database (fst (add_to_database mc x True True True))) =
            store_insert (map data (database mc)) x"
    and il: "i < length (database (fst (add_to_database mc x True True True)))"
    using add_to_database_store_insert [OF tweets_exact [OF st x, THEN conjunct1]
        tweets_exact [OF st x, THEN conjunct2]] by blast
  let ?mc1 = "fst (add_to_database mc x True True True)"
  have fr: "comp_func ?mc1 = comp_func mc \<and> copy_func ?mc1 = copy_func mc \<and> is_last ?mc1 = is_last mc"
    using add_to_database_frame [of mc x True True True ?mc1 "Some i"] i
    by (metis prod.collapse)
  have c: "comp_contract mc"
    using st by (intro tweets_comp_contract) (simp_all add: tweets_state_def)
  have wf: "wf_chain ?mc1" using wf_add_to_database [OF c] st by (simp add: tweets_state_def)
  have "set (map data (database ?mc1)) \<subseteq> insert x (set (map data (database mc)))"
    using m by (auto simp: store_insert_def)
  then have nul: "\<forall>n \<in> set (database ?mc1). CHR 0x00 \<notin> set (data n)"
    using st x by (fastforce simp: tweets_state_def)
  have "length (database mc) \<le> length (database ?mc1)"
    using m by (metis length_map length_append le_add1 store_insert_def order_refl)
  with fr wf nul st i m il show ?thesis
    by (intro exI [of _ ?mc1] exI [of _ i]) (simp add: tweets_state_def prod_eq_iff)
qed

lemma link_tweets:
  assumes st: "tweets_state mc" and p: "p < length (database mc)" and n: "nn < length (database mc)"
  shows "\<exists>mc2. add_node_to_frequency_list mc p nn True True = Inr (mc2, EXIT_SUCCESS) \<and>
           tweets_state mc2 \<and> length (database mc2) = length (database mc) \<and>
           map data (database mc2) = map data (database mc)"
proof -
  have c: "comp_contract mc"
    using st by (intro tweets_comp_contract) (simp_all add: tweets_state_def)
  have wf: "wf_chain mc" using st by (simp add: tweets_state_def)
  obtain mc2 where r: "add_node_to_frequency_list mc p nn True True = Inr (mc2, EXIT_SUCCESS)"
    and wf2: "wf_chain mc2"
    using wf_add_node_to_frequency_list [OF c wf p n] by blast
  obtain n' where mc2: "mc2 = mc\<lparr>database := (database mc)[p := n']\<rparr>"
    and d: "data n' = data (database mc ! p)"
    using add_node_to_frequency_list_frame [OF r] by blast
  have m: "map data (database mc2) = map data (database mc)" using mc2 d by simp
  have "\<forall>d \<in> set (map data (database mc2)). CHR 0x00 \<notin> set d"
    unfolding m using st by (auto simp: tweets_state_def)
  then have "\<forall>n \<in> set (database mc2). CHR 0x00 \<notin> set (data n)" by simp
  with m show ?thesis
    using r wf2 st mc2 by (auto simp: tweets_state_def)
qed

text \<open>One pass of the token loop on a tweets chain with every allocation succeeding:
  the token is stored (or found) as node \<open>nn\<close>, linked from \<open>prev\<close>, and the loop
  either stops at the word limit or goes on from \<open>nn\<close>.\<close>

lemma fill_line_step_tweets:
  assumes st: "tweets_state mc" and pv: "\<forall>p. prev = Some p \<longrightarrow> p < length (database mc)"
    and nul: "CHR 0x00 \<notin> set tok"
  shows "\<exists>mc2 nn. tweets_state mc2 \<and> nn < length (database mc2) \<and>
           map data (database mc2) = store_insert (map data (database mc)) tok \<and>
           fill_line mc (tok # toks) prev wtr cnt (\<lambda>_. True) a =
             (if wtr \<noteq> MAX_WORD_TO_READ \<and> int (Suc cnt) = wtr
              then Inr (mc2, Suc cnt, a + 5, Some EXIT_SUCCESS)
              else fill_line mc2 toks (Some nn) wtr (Suc cnt) (\<lambda>_. True) (a + 5))"
proof -
  obtain mc1 i where a1: "add_to_database mc tok True True True = (mc1, Some i)"
    and st1: "tweets_state mc1" and il: "i < length (database mc1)"
    and len: "length (database mc) \<le> length (database mc1)"
    and m1: "map data (database mc1) = store_insert (map data (database mc)) tok"
    using add_to_database_tweets [OF st nul] by blast
  obtain mc2 where l: "(case prev of None \<Rightarrow> Inr mc1
        | Some p \<Rightarrow> map_sum id fst (add_node_to_frequency_list mc1 p i True True)) = Inr mc2"
    and st2: "tweets_state mc2" and len2: "length (database mc2) = length (database mc1)"
    and m2: "map data (database mc2) = map data (database mc1)"
  proof (cases prev)
    case None
    then show thesis using that st1 by simp
  next
    case (Some p)
    with pv len have "p < length (database mc1)" by auto
    then obtain mc2 where "add_node_to_frequency_list mc1 p i True True = Inr (mc2, EXIT_SUCCESS)"
      "tweets_state mc2" "length (database mc2) = length (database mc1)"
      "map data (database mc2) = map data (database mc1)"
      using link_tweets [OF st1 _ il] by blast
    with Some show thesis using that by simp
  qed
  show ?thesis
    using a1 l st2 len2 il m1 m2 by (intro exI [of _ mc2] exI [of _ i]) simp
qed

lemma fill_line_tweets:
  "tweets_state mc \<Longrightarrow> (\<forall>p. prev = Some p \<longrightarrow> p < length (database mc)) \<Longrightarrow>
   (\<forall>t \<in> set toks. CHR 0x00 \<notin> set t) \<Longrightarrow>
   \<exists>mc' cnt' a'. fill_line mc toks prev MAX_WORD_TO_READ cnt (\<lambda>_. True) a = Inr (mc', cnt', a', None) \<and>
     tweets_state mc' \<and> map data (database mc') = foldl store_insert (map data (database mc)) toks"
proof (induction toks arbitrary: mc prev cnt a)
  case Nil
  then show ?case by simp
next
  case (Cons tok toks)
  obtain mc2 nn where st2: "tweets_state mc2" and nl: "nn < length (database mc2)"
    and m2: "map data (database mc2) = store_insert (map data (database mc)) tok"
    and r: "fill_line mc (tok # toks) prev MAX_WORD_TO_READ cnt (\<lambda>_. True) a =
              fill_line mc2 toks (Some nn) MAX_WORD_TO_READ (Suc cnt) (\<lambda>_. True) (a + 5)"
    using fill_line_step_tweets [OF Cons.prems(1,2), of tok toks MAX_WORD_TO_READ cnt a] Cons.prems(3) by auto
  have "\<forall>p. Some nn = Some p \<longrightarrow> p < length (database mc2)" using nl by simp
  from Cons.IH [OF st2 this] Cons.prems(3) r m2 show ?case by simp
qed

lemma fill_lines_tweets:
  "tweets_state mc \<Longrightarrow>
   \<exists>mc'. fill_lines mc ls MAX_WORD_TO_READ cnt (\<lambda>_. True) a = Inr (mc', EXIT_SUCCESS) \<and>
     tweets_state mc' \<and>
     map data (database mc') = foldl store_insert (map data (database mc)) (concat (map strtok_tokens ls))"
proof (induction ls arbitrary: mc cnt a)
  case Nil
  then show ?case by simp
next
  case (Cons l ls)
  obtain mc1 cnt1 a1 where
    r: "fill_line mc (strtok_tokens l) None MAX_WORD_TO_READ cnt (\<lambda>_. True) a = Inr (mc1, cnt1, a1, None)"
    and st1: "tweets_state mc1"
    and m1: "map data (database mc1) = foldl store_insert (map data (database mc)) (strtok_tokens l)"
    using fill_line_tweets [OF Cons.prems] strtok_tokens_no_nul by blast
  obtain mc' where "fill_lines mc1 ls MAX_WORD_TO_READ cnt1 (\<lambda>_. True) a1 = Inr (mc', EXIT_SUCCESS)"
    and "tweets_state mc'"
    and "map data (database mc') = foldl store_insert (map data (database mc1)) (concat (map strtok_tokens ls))"
    using Cons.IH [OF st1] by blast
  with r m1 show ?case by simp
qed

text \<open>With a positive word limit, the token loop stores the tokens up to the limit
  and stops there with \<open>EXIT_SUCCESS\<close>, or stores all of them below it.\<close>

lemma fill_line_limit_tweets:
  "tweets_state mc \<Longrightarrow> (\<forall>p. prev = Some p \<longrightarrow> p < length (database mc)) \<Longrightarrow>
   (\<forall>t \<in> set toks. CHR 0x00 \<notin> set t) \<Longrightarrow> 0 < wtr \<Longrightarrow> int cnt < wtr \<Longrightarrow>
   \<exists>mc' cnt' a' r. fill_line mc toks prev wtr cnt (\<lambda>_. True) a = Inr (mc', cnt', a', r) \<and> tweets_state mc' \<and>
     map data (database mc') = foldl store_insert (map data (database mc)) (take (nat wtr - cnt) toks) \<and>
     (r = None \<longrightarrow> cnt' = cnt + length toks \<and> int cnt' < wtr) \<and>
     (r \<noteq> None \<longrightarrow> r = Some EXIT_SUCCESS \<and> nat wtr \<le> cnt + length toks)"
proof (induction toks arbitrary: mc prev cnt a)
  case Nil
  then show ?case by simp
next
  case (Cons tok toks)
  obtain mc2 nn where st2: "tweets_state mc2" and nl: "nn < length (database mc2)"
    and m2: "map data (database mc2) = store_insert (map data (database mc)) tok"
    and r: "fill_line mc (tok # toks) prev wtr cnt (\<lambda>_. True) a =
             (if wtr \<noteq> MAX_WORD_TO_READ \<and> int (Suc cnt) = wtr
              then Inr (mc2, Suc cnt, a + 5, Some EXIT_SUCCESS)
              else fill_line mc2 toks (Some nn) wtr (Suc cnt) (\<lambda>_. True) (a + 5))"
    using fill_line_step_tweets [OF Cons.prems(1,2)] Cons.prems(3) by fastforce
  have k: "nat wtr - cnt = Suc (nat wtr - Suc cnt)" using Cons.prems(5) by simp
  show ?case
  proof (cases "int (Suc cnt) = wtr")
    case True
    then have "nat wtr - cnt = 1" by simp
    then show ?thesis using True r st2 m2 Cons.prems(4) by simp
  next
    case False
    then have lt: "int (Suc cnt) < wtr" using Cons.prems(5) by simp
    have pv: "\<forall>p. Some nn = Some p \<longrightarrow> p < length (database mc2)" using nl by simp
    have nul: "\<forall>t \<in> set toks. CHR 0x00 \<notin> set t" using Cons.prems(3) by simp
    from Cons.IH [OF st2 pv nul Cons.prems(4) lt, where a = "a + 5"]
    obtain mc' cnt' a' r' where
      "fill_line mc2 toks (Some nn) wtr (Suc cnt) (\<lambda>_. True) (a + 5) = Inr (mc', cnt', a', r')"
      "tweets_state mc'"
      "map data (database mc') = foldl store_insert (map data (database mc2)) (take (nat wtr - Suc cnt) toks)"
      "r' = None \<longrightarrow> cnt' = Suc cnt + length toks \<and> int cnt' < wtr"
      "r' \<noteq> None \<longrightarrow> r' = Some EXIT_SUCCESS \<and> nat wtr \<le> Suc cnt + length toks"
      by blast
    then show ?thesis using False r m2 k Cons.prems(4) by auto
  qed
qed

lemma fill_lines_limit_tweets:
  "tweets_state mc \<Longrightarrow> 0 < wtr \<Longrightarrow> int cnt < wtr \<Longrightarrow>
   \<exists>mc'. fill_lines mc ls wtr cnt (\<lambda>_. True) a = Inr (mc', EXIT_SUCCESS) \<and> tweets_state mc' \<and>
     map data (database mc') =
       foldl store_insert (map data (database mc)) (take (nat wtr - cnt) (concat (map strtok_tokens ls)))"
proof (induction ls arbitrary: mc cnt a)
  case Nil
  then show ?case by simp
next
  case (Cons l ls)
  obtain mc1 cnt1 a1 r where
    f: "fill_line mc (strtok_tokens l) None wtr cnt (\<lambda>_. True) a = Inr (mc1, cnt1, a1, r)"
    and st1: "tweets_state mc1"
    and m1: "map data (database mc1) = foldl store_insert (map data (database mc)) (take (nat wtr - cnt) (strtok_tokens l))"
    and rn: "r = None \<longrightarrow> cnt1 = cnt + length (strtok_tokens l) \<and> int cnt1 < wtr"
    and rs: "r \<noteq> None \<longrightarrow> r = Some EXIT_SUCCESS \<and> nat wtr \<le> cnt + length (strtok_tokens l)"
    using fill_line_limit_tweets [OF Cons.prems(1) _ _ Cons.prems(2,3), of None "strtok_tokens l"]
      strtok_tokens_no_nul by blast
  show ?case
  proof (cases r)
    case None
    then have c1: "cnt1 = cnt + length (strtok_tokens l)" "int cnt1 < wtr" using rn by simp_all
    obtain mc' where "fill_lines mc1 ls wtr cnt1 (\<lambda>_. True) a1 = Inr (mc', EXIT_SUCCESS)" "tweets_state mc'"
      "map data (database mc') = foldl store_insert (map data (database mc1))
          (take (nat wtr - cnt1) (concat (map strtok_tokens ls)))"
      using Cons.IH [OF st1 Cons.prems(2) c1(2)] by blast
    moreover have "take (nat wtr - cnt) (strtok_tokens l) = strtok_tokens l" using c1 by simp
    ultimately show ?thesis using f None m1 c1 by (simp add: take_append)
  next
    case (Some s)
    then have "s = EXIT_SUCCESS" "nat wtr \<le> cnt + length (strtok_tokens l)" using rs by simp_all
    then show ?thesis using f Some st1 m1 by (simp add: take_append)
  qed
qed

lemma tweets_create_chain_Some:
  "tweets_create_chain ok1 ok2 = Some mc \<Longrightarrow> ok1 \<and> ok2 \<and> tweets_state mc \<and> database mc = []"
  by (auto simp: tweets_create_chain_def tweets_state_def wf_chain_def db_unique_def split: if_splits)

lemma fill_database_tweets:
  "tweets_create_chain True True = Some mc \<Longrightarrow>
   \<exists>mc'. fill_database input MAX_WORD_TO_READ mc (\<lambda>_. True) = Inr (mc', EXIT_SUCCESS) \<and>
     tweets_state mc' \<and>
     map data (database mc') = foldl store_insert [] (concat (map strtok_tokens (fgets_lines input)))"
  using fill_lines_tweets [of mc "fgets_lines input" 0 0] tweets_create_chain_Some [of True True mc]
  by (simp add: fill_database_def)

lemma strtok_tokens_props:
  "concat (strtok_tokens line) = filter (\<lambda>c. c \<notin> set DELIMITERS) (c_str line) \<and>
   (\<forall>t \<in> set (strtok_tokens line). t \<noteq> [] \<and> set t \<inter> set DELIMITERS = {} \<and> CHR 0x00 \<notin> set t)"
  using strtok_acc_concat [of "c_str line" "[]"] strtok_acc_tokens [of "[]" "c_str line"] c_str_no_nul
  by (simp add: strtok_tokens_def)

subsection \<open>The word limit\<close>

lemma add_to_database_length:
  "add_to_database mc x ok1 ok2 ok3 = (mc1, r) \<Longrightarrow>
   length (database mc) \<le> length (database mc1) \<and> length (database mc1) \<le> Suc (length (database mc)) \<and>
   (r = None \<longrightarrow> mc1 = mc)"
  by (cases rule: add_to_database_cases [of mc x ok1 ok2 ok3]) auto

lemma link_length:
  "(case prev of None \<Rightarrow> Inr mc1 | Some p \<Rightarrow> map_sum id fst (add_node_to_frequency_list mc1 p nn ok1 ok2)) = Inr mc2 \<Longrightarrow>
   length (database mc2) = length (database mc1)"
proof (cases prev)
  case (Some p)
  assume r: "(case prev of None \<Rightarrow> Inr mc1 | Some p \<Rightarrow> map_sum id fst (add_node_to_frequency_list mc1 p nn ok1 ok2)) = Inr mc2"
  then obtain st where "add_node_to_frequency_list mc1 p nn ok1 ok2 = Inr (mc2, st)"
    using Some by (cases "add_node_to_frequency_list mc1 p nn ok1 ok2") auto
  then show ?thesis using add_node_to_frequency_list_frame by fastforce
qed simp

text \<open>With a positive limit, each pass of the token loop adds at most one node per
  word it counts, and the count never passes the limit; the loop goes on only below
  the limit.\<close>

lemma fill_line_word_limit:
  "0 < wtr \<Longrightarrow> int cnt < wtr \<Longrightarrow> fill_line mc toks prev wtr cnt al a = Inr (mc', cnt', a', r) \<Longrightarrow>
   length (database mc') + cnt \<le> length (database mc) + cnt' \<and> int cnt' \<le> wtr \<and>
   (r = None \<longrightarrow> int cnt' < wtr)"
proof (induction toks arbitrary: mc prev cnt a)
  case (Cons tok toks)
  obtain mc1 r1 where a1: "add_to_database mc tok (al a) (al (a + 1)) (al (a + 2)) = (mc1, r1)" by fastforce
  note l1 = add_to_database_length [OF a1]
  show ?case
  proof (cases r1)
    case None
    then show ?thesis using Cons.prems a1 l1 by auto
  next
    case (Some nn)
    let ?lk = "case prev of None \<Rightarrow> Inr mc1 | Some p \<Rightarrow> map_sum id fst (add_node_to_frequency_list mc1 p nn (al (a + 3)) (al (a + 4)))"
    obtain mc2 where lk: "?lk = Inr mc2"
      using Cons.prems(3) a1 Some by (cases ?lk) auto
    have l2: "length (database mc2) = length (database mc1)" using link_length [OF lk] .
    show ?thesis
    proof (cases "int (Suc cnt) = wtr")
      case True
      then show ?thesis using Cons.prems a1 Some lk l1 l2 by auto
    next
      case False
      then have go: "fill_line mc2 toks (Some nn) wtr (Suc cnt) al (a + 5) = Inr (mc', cnt', a', r)"
        using Cons.prems a1 Some lk by auto
      have "int (Suc cnt) < wtr" using False Cons.prems(2) by simp
      from Cons.IH [OF Cons.prems(1) this go] show ?thesis using l1 l2 by simp
    qed
  qed
qed simp

lemma fill_lines_word_limit:
  "0 < wtr \<Longrightarrow> int cnt < wtr \<Longrightarrow> fill_lines mc ls wtr cnt al a = Inr (mc', st) \<Longrightarrow>
   length (database mc') + cnt \<le> length (database mc) + nat wtr"
proof (induction ls arbitrary: mc cnt a)
  case Nil
  then show ?case by simp
next
  case (Cons l ls)
  obtain mc1 cnt1 a1 r where f: "fill_line mc (strtok_tokens l) None wtr cnt al a = Inr (mc1, cnt1, a1, r)"
    using Cons.prems(3) by (cases "fill_line mc (strtok_tokens l) None wtr cnt al a") auto
  note b = fill_line_word_limit [OF Cons.prems(1,2) f]
  show ?case
  proof (cases r)
    case None
    then have "fill_lines mc1 ls wtr cnt1 al a1 = Inr (mc', st)" using Cons.prems(3) f by simp
    from Cons.IH [OF Cons.prems(1) _ this] b None show ?thesis by simp
  next
    case (Some s)
    then have "mc' = mc1" using Cons.prems(3) f by simp
    moreover have "cnt1 \<le> nat wtr" using b Cons.prems(1) by (simp add: le_nat_iff)
    ultimately show ?thesis using b by simp
  qed
qed

subsection \<open>Evaluation on concrete inputs\<close>

subsection \<open>Recorded transitions are consecutive tokens\<close>

lemma add_to_database_words:
  assumes w: "tweets_words mc" and x: "CHR 0x00 \<notin> set x"
    and r: "add_to_database mc x ok1 ok2 ok3 = (mc1, res)"
  shows "tweets_words mc1 \<and> (links_within P mc \<longrightarrow> links_within P mc1) \<and>
    length (database mc) \<le> length (database mc1) \<and>
    (\<forall>i < length (database mc). database mc1 ! i = database mc ! i) \<and>
    (\<forall>i. res = Some i \<longrightarrow> i < length (database mc1) \<and> data (database mc1 ! i) = x)"
proof (cases rule: add_to_database_cases [of mc x ok1 ok2 ok3])
  case (found i)
  then have "i < length (database mc)" "strcmp (data (database mc ! i)) x = 0"
    using w by (simp_all add: get_node_from_database_Some tweets_words_def tweets_comp_func_def)
  moreover have "CHR 0x00 \<notin> set (data (database mc ! i))"
    using w calculation(1) by (simp add: tweets_words_def)
  ultimately have "data (database mc ! i) = x" using x by (simp add: strcmp_eq_0 c_str_id)
  then show ?thesis using found r w \<open>i < length (database mc)\<close> by auto
next
  case new
  then have mc1: "mc1 = mc\<lparr>database := database mc @ [\<lparr>data = x, frequency_list = [], fre_list_size = 0\<rparr>]\<rparr>"
    and res: "res = Some (length (database mc))"
    using r w x by (simp_all add: tweets_words_def tweets_copy_func_def c_str_id)
  have "links_within P mc1" if "links_within P mc"
    using that unfolding links_within_def mc1 by (auto simp: nth_append less_Suc_eq)
  then show ?thesis using w x mc1 res by (auto simp: tweets_words_def nth_append)
next
  case fail
  then show ?thesis using r w by simp
qed

lemma link_words:
  assumes w: "tweets_words mc" and l: "links_within P mc"
    and p: "p < length (database mc)" and nn: "nn < length (database mc)"
    and pr: "(data (database mc ! p), data (database mc ! nn)) \<in> P"
    and r: "add_node_to_frequency_list mc p nn ok1 ok2 = Inr (mc2, st)"
  shows "tweets_words mc2 \<and> links_within P mc2 \<and> length (database mc2) = length (database mc) \<and>
    (\<forall>i < length (database mc). data (database mc2 ! i) = data (database mc ! i))"
proof -
  obtain n' where mc2: "mc2 = mc\<lparr>database := (database mc)[p := n']\<rparr>"
    using add_node_to_frequency_list_frame [OF r] by blast
  note t = add_node_to_frequency_list_targets [OF r]
  have "links_within P mc2"
    unfolding links_within_def
  proof (intro allI impI ballI)
    fix i t' assume i: "i < length (database mc2)"
      and t': "t' \<in> set (map markov_node (frequency_list (database mc2 ! i)))"
    then have i': "i < length (database mc)" using t by simp
    then have "t' \<in> set (map markov_node (frequency_list (database mc ! i))) \<or> (i = p \<and> t' = nn)"
      using t t' by (auto split: if_splits)
    then show "t' < length (database mc2) \<and> (data (database mc2 ! i), data (database mc2 ! t')) \<in> P"
    proof
      assume "t' \<in> set (map markov_node (frequency_list (database mc ! i)))"
      then have "t' < length (database mc)" "(data (database mc ! i), data (database mc ! t')) \<in> P"
        using l i' by (auto simp: links_within_def)
      then show ?thesis using t i' by simp
    qed (use t pr nn p in simp)
  qed
  moreover have "tweets_words mc2"
    unfolding tweets_words_def
  proof (intro conjI ballI)
    show "comp_func mc2 = tweets_comp_func" "copy_func mc2 = tweets_copy_func"
      using w mc2 by (simp_all add: tweets_words_def)
  next
    fix n assume "n \<in> set (database mc2)"
    then obtain i where i: "i < length (database mc)" "n = database mc2 ! i"
      using t by (auto simp: in_set_conv_nth)
    then have "data n = data (database mc ! i)" using t by simp
    then show "CHR 0x00 \<notin> set (data n)" using w i(1) by (simp add: tweets_words_def)
  qed
  ultimately show ?thesis using t by simp
qed
lemma zip_tl_Cons:
  "toks \<noteq> [] \<Longrightarrow> set (zip (tok # toks) toks) = insert (tok, hd toks) (set (zip toks (tl toks)))"
  by (cases toks) simp_all

lemma fill_line_links:
  assumes "tweets_words mc" "links_within P mc" "\<forall>t \<in> set toks. CHR 0x00 \<notin> set t"
    and "set (zip toks (tl toks)) \<subseteq> P"
    and "\<forall>p. prev = Some p \<longrightarrow> p < length (database mc) \<and> (toks \<noteq> [] \<longrightarrow> (data (database mc ! p), hd toks) \<in> P)"
    and "fill_line mc toks prev wtr cnt al a = Inr (mc', cnt', a', r)"
  shows "tweets_words mc' \<and> links_within P mc'"
  using assms
proof (induction toks arbitrary: mc prev cnt a)
  case Nil
  then show ?case by simp
next
  case (Cons tok toks)
  obtain mc1 res where a1: "add_to_database mc tok (al a) (al (a + 1)) (al (a + 2)) = (mc1, res)" by fastforce
  note A = add_to_database_words [OF Cons.prems(1) _ a1, of P]
  have tokn: "CHR 0x00 \<notin> set tok" using Cons.prems(3) by simp
  show ?case
  proof (cases res)
    case None
    then show ?thesis using Cons.prems(2,6) a1 A tokn by simp
  next
    case (Some nn)
    have w1: "tweets_words mc1" and l1: "links_within P mc1" and nn: "nn < length (database mc1)"
      and dn: "data (database mc1 ! nn) = tok"
      using A tokn Cons.prems(2) Some by auto
    obtain mc2 where l2: "(case prev of None \<Rightarrow> Inr mc1
        | Some p \<Rightarrow> map_sum id fst (add_node_to_frequency_list mc1 p nn (al (a + 3)) (al (a + 4)))) = Inr mc2"
      and rest: "(if wtr \<noteq> MAX_WORD_TO_READ \<and> int (Suc cnt) = wtr then Inr (mc2, Suc cnt, a + 5, Some EXIT_SUCCESS)
          else fill_line mc2 toks (Some nn) wtr (Suc cnt) al (a + 5)) = Inr (mc', cnt', a', r)"
      using Cons.prems(6) a1 Some by (auto split: sum.splits)
    have w2: "tweets_words mc2 \<and> links_within P mc2 \<and> length (database mc2) = length (database mc1) \<and>
        data (database mc2 ! nn) = tok"
    proof (cases prev)
      case None
      then show ?thesis using l2 w1 l1 dn by simp
    next
      case (Some p)
      obtain st where r2: "add_node_to_frequency_list mc1 p nn (al (a + 3)) (al (a + 4)) = Inr (mc2, st)"
        using l2 Some by (auto simp: map_sum_def split: sum.splits)
      have p: "p < length (database mc)" and pr: "(data (database mc ! p), tok) \<in> P"
        using Cons.prems(5) Some by auto
      then have p1: "p < length (database mc1)" and "data (database mc1 ! p) = data (database mc ! p)"
        using A tokn by auto
      then have "(data (database mc1 ! p), data (database mc1 ! nn)) \<in> P" using pr dn by simp
      then show ?thesis using link_words [OF w1 l1 p1 nn _ r2] dn nn by simp
    qed
    show ?thesis
    proof (cases "wtr \<noteq> MAX_WORD_TO_READ \<and> int (Suc cnt) = wtr")
      case True
      then show ?thesis using rest w2 by simp
    next
      case False
      have "set (zip toks (tl toks)) \<subseteq> P" "toks \<noteq> [] \<longrightarrow> (tok, hd toks) \<in> P"
        using Cons.prems(4) zip_tl_Cons [of toks tok] by (cases toks; auto)+
      moreover have "fill_line mc2 toks (Some nn) wtr (Suc cnt) al (a + 5) = Inr (mc', cnt', a', r)"
        using rest by (simp only: if_not_P [OF False])
      moreover have "\<forall>p. Some nn = Some p \<longrightarrow> p < length (database mc2) \<and>
          (toks \<noteq> [] \<longrightarrow> (data (database mc2 ! p), hd toks) \<in> P)"
        using w2 nn calculation(2) by auto
      ultimately show ?thesis
        using Cons.IH [of mc2 "Some nn" "Suc cnt" "a + 5"] w2 Cons.prems(3) by simp
    qed
  qed
qed

lemma fill_lines_links:
  assumes "tweets_words mc" "links_within P mc"
    and "\<forall>l \<in> set ls. set (zip (strtok_tokens l) (tl (strtok_tokens l))) \<subseteq> P"
    and "fill_lines mc ls wtr cnt al a = Inr (mc', st)"
  shows "tweets_words mc' \<and> links_within P mc'"
  using assms
proof (induction ls arbitrary: mc cnt a)
  case Nil
  then show ?case by simp
next
  case (Cons l ls)
  obtain m1 c1 a1 r1 where f: "fill_line mc (strtok_tokens l) None wtr cnt al a = Inr (m1, c1, a1, r1)"
    using Cons.prems(4) by (auto split: sum.splits)
  have "tweets_words m1 \<and> links_within P m1"
    using fill_line_links [OF Cons.prems(1,2) _ _ _ f] Cons.prems(3) strtok_tokens_no_nul by auto
  then show ?case using Cons.IH [of m1 c1 a1] Cons.prems(3,4) f by (cases r1) auto
qed

lemma fill_database_links_within:
  assumes c: "tweets_create_chain True True = Some mc"
    and f: "fill_database input words_to_read mc al = Inr (mc', st)"
  shows "links_within (line_bigrams input) mc'"
proof -
  have mc: "database mc = [] \<and> comp_func mc = tweets_comp_func \<and> copy_func mc = tweets_copy_func"
    using c by (auto simp: tweets_create_chain_def split: if_splits)
  then have w: "tweets_words mc" and l: "links_within (line_bigrams input) mc"
    by (simp_all add: tweets_words_def links_within_def)
  have b: "\<forall>l \<in> set (fgets_lines input). set (zip (strtok_tokens l) (tl (strtok_tokens l))) \<subseteq> line_bigrams input"
    unfolding line_bigrams_def by blast
  show ?thesis using fill_lines_links [OF w l b] f by (simp add: fill_database_def)
qed
text \<open>On tokens never seen before, every token is a new node, and the link from the
  previous node reads a table that nothing has touched since that node was added, so
  whatever the link allocations do, the loop goes on.\<close>

lemma add_fresh_word:
  assumes w: "tweets_words mc" and x: "CHR 0x00 \<notin> set x"
    and fr: "\<forall>n \<in> set (database mc). data n \<noteq> x"
  shows "add_to_database mc x True True True =
    (mc\<lparr>database := database mc @ [\<lparr>data = x, frequency_list = [], fre_list_size = 0\<rparr>]\<rparr>, Some (length (database mc)))"
proof -
  have "\<forall>j < length (database mc). comp_func mc (data (database mc ! j)) x \<noteq> 0"
  proof (intro allI impI)
    fix j assume j: "j < length (database mc)"
    then have "data (database mc ! j) \<noteq> x" "CHR 0x00 \<notin> set (data (database mc ! j))"
      using fr w by (auto simp: tweets_words_def)
    then show "comp_func mc (data (database mc ! j)) x \<noteq> 0"
      using w x by (simp add: tweets_words_def tweets_comp_func_def strcmp_eq_0 c_str_id)
  qed
  then show ?thesis
    using add_to_database_new [of mc x] w x
    by (simp add: get_node_from_database_None tweets_words_def tweets_copy_func_def c_str_id)
qed

lemma fill_line_fresh:
  assumes "tweets_words mc" "\<forall>n \<in> set (database mc). data n \<notin> set toks" "distinct toks"
    and "\<forall>t \<in> set toks. CHR 0x00 \<notin> set t"
    and "\<forall>p. prev = Some p \<longrightarrow> p < length (database mc) \<and>
           fre_list_size (database mc ! p) = length (frequency_list (database mc ! p))"
    and al: "\<forall>i. i mod 5 < 3 \<longrightarrow> al i" and "a mod 5 = 0"
  shows "\<exists>mc' cnt' a'. fill_line mc toks prev MAX_WORD_TO_READ cnt al a = Inr (mc', cnt', a', None) \<and>
           tweets_words mc' \<and> map data (database mc') = map data (database mc) @ toks \<and> a' mod 5 = 0"
  using assms(1-5,7)
proof (induction toks arbitrary: mc prev cnt a)
  case Nil
  then show ?case by simp
next
  case (Cons tok toks)
  have "Suc a mod 5 = 1" "Suc (Suc a) mod 5 = 2" using Cons.prems(6) by presburger+
  then have oks: "al a" "al (a + 1)" "al (a + 2)" using al Cons.prems(6) by simp_all
  let ?mc1 = "mc\<lparr>database := database mc @ [\<lparr>data = tok, frequency_list = [], fre_list_size = 0\<rparr>]\<rparr>"
  have a1: "add_to_database mc tok (al a) (al (a + 1)) (al (a + 2)) = (?mc1, Some (length (database mc)))"
    using add_fresh_word [OF Cons.prems(1)] Cons.prems(2,4) oks by auto
  have w1: "tweets_words ?mc1" using Cons.prems(1,4) by (auto simp: tweets_words_def)
  have "\<exists>mc2. (case prev of None \<Rightarrow> Inr ?mc1
        | Some p \<Rightarrow> map_sum id fst (add_node_to_frequency_list ?mc1 p (length (database mc)) (al (a + 3)) (al (a + 4))))
        = Inr mc2 \<and> tweets_words mc2 \<and> map data (database mc2) = map data (database mc) @ [tok] \<and>
        database mc2 ! length (database mc) = \<lparr>data = tok, frequency_list = [], fre_list_size = 0\<rparr> \<and>
        length (database mc2) = Suc (length (database mc))"
  proof (cases prev)
    case None
    then show ?thesis using w1 by simp
  next
    case (Some p)
    then have p: "p < length (database mc)"
      and sz: "fre_list_size (database mc ! p) = length (frequency_list (database mc ! p))"
      using Cons.prems(5) by auto
    obtain mc2 st where an: "add_node_to_frequency_list ?mc1 p (length (database mc)) (al (a + 3)) (al (a + 4)) = Inr (mc2, st)"
    proof -
      have p1: "p < length (database ?mc1)" using p by simp
      have sz1: "fre_list_size (database ?mc1 ! p) = length (frequency_list (database ?mc1 ! p))"
        using p sz by (simp add: nth_append)
      show ?thesis
        using add_node_to_frequency_list_consistent [OF p1 sz1, of "length (database mc)" "al (a + 3)" "al (a + 4)"]
          that by blast
    qed
    note k = add_node_to_frequency_list_keeps [OF an]
    obtain n' where mc2: "mc2 = ?mc1\<lparr>database := (database ?mc1)[p := n']\<rparr>"
      using add_node_to_frequency_list_frame [OF an] by blast
    have "tweets_words mc2"
      unfolding tweets_words_def
    proof (intro conjI ballI)
      show "comp_func mc2 = tweets_comp_func" "copy_func mc2 = tweets_copy_func"
        using w1 mc2 by (simp_all add: tweets_words_def)
    next
      fix n assume "n \<in> set (database mc2)"
      then have "data n \<in> set (map data (database mc2))" by simp
      then show "CHR 0x00 \<notin> set (data n)" using k w1 by (auto simp: tweets_words_def)
    qed
    then show ?thesis using an k Some p mc2 by (auto simp: nth_append)
  qed
  then obtain mc2 where l: "(case prev of None \<Rightarrow> Inr ?mc1
        | Some p \<Rightarrow> map_sum id fst (add_node_to_frequency_list ?mc1 p (length (database mc)) (al (a + 3)) (al (a + 4))))
        = Inr mc2" and w2: "tweets_words mc2" and m2: "map data (database mc2) = map data (database mc) @ [tok]"
    and n2: "database mc2 ! length (database mc) = \<lparr>data = tok, frequency_list = [], fre_list_size = 0\<rparr>"
    and len2: "length (database mc2) = Suc (length (database mc))"
    by blast
  have fr2: "\<forall>n \<in> set (database mc2). data n \<notin> set toks"
  proof
    fix n assume "n \<in> set (database mc2)"
    then have "data n \<in> set (map data (database mc2))" by simp
    then show "data n \<notin> set toks" using m2 Cons.prems(2,3) by auto
  qed
  obtain mc' cnt' a' where r: "fill_line mc2 toks (Some (length (database mc))) MAX_WORD_TO_READ (Suc cnt) al (a + 5) =
      Inr (mc', cnt', a', None)" and w': "tweets_words mc'"
    and m': "map data (database mc') = map data (database mc2) @ toks" and a': "a' mod 5 = 0"
    using Cons.IH [where mc = mc2 and prev = "Some (length (database mc))" and cnt = "Suc cnt" and a = "a + 5"]
      w2 fr2 Cons.prems(3,4,6) n2 len2 by auto
  have "fill_line mc (tok # toks) prev MAX_WORD_TO_READ cnt al a =
      fill_line mc2 toks (Some (length (database mc))) MAX_WORD_TO_READ (Suc cnt) al (a + 5)"
    using a1 l by simp
  then show ?case using r w' m' m2 a' by auto
qed

lemma fill_lines_fresh:
  assumes "tweets_words mc" "\<forall>n \<in> set (database mc). data n \<notin> set (concat (map strtok_tokens ls))"
    and "distinct (concat (map strtok_tokens ls))"
    and al: "\<forall>i. i mod 5 < 3 \<longrightarrow> al i" and "a mod 5 = 0"
  shows "\<exists>mc'. fill_lines mc ls MAX_WORD_TO_READ cnt al a = Inr (mc', EXIT_SUCCESS) \<and>
           map data (database mc') = map data (database mc) @ concat (map strtok_tokens ls)"
  using assms(1-3,5)
proof (induction ls arbitrary: mc cnt a)
  case Nil
  then show ?case by simp
next
  case (Cons l ls)
  obtain m1 c1 a1 where f: "fill_line mc (strtok_tokens l) None MAX_WORD_TO_READ cnt al a = Inr (m1, c1, a1, None)"
    and w1: "tweets_words m1" and d1: "map data (database m1) = map data (database mc) @ strtok_tokens l"
    and a1: "a1 mod 5 = 0"
    using fill_line_fresh [OF Cons.prems(1) _ _ _ _ al Cons.prems(4), of "strtok_tokens l" None cnt]
      Cons.prems(2,3) strtok_tokens_no_nul by auto
  have fr1: "\<forall>n \<in> set (database m1). data n \<notin> set (concat (map strtok_tokens ls))"
  proof
    fix n assume "n \<in> set (database m1)"
    then have "data n \<in> set (map data (database m1))" by simp
    then show "data n \<notin> set (concat (map strtok_tokens ls))" using d1 Cons.prems(2,3) by auto
  qed
  have d1': "distinct (concat (map strtok_tokens ls))" using Cons.prems(3) by simp
  obtain mc' where "fill_lines m1 ls MAX_WORD_TO_READ c1 al a1 = Inr (mc', EXIT_SUCCESS)"
    "map data (database mc') = map data (database m1) @ concat (map strtok_tokens ls)"
    using Cons.IH [OF w1 fr1 d1' a1, of c1] by blast
  then show ?case using f d1 by simp
qed

lemma tweets_loop_stop [markov_eval]: "n < i \<Longrightarrow> tweets_loop mc rs k i n = Some (Inr ([], k))"
  by (simp add: tweets_loop.simps)

lemma tweets_loop_step [markov_eval]:
  "\<not> n < i \<Longrightarrow> tweets_loop mc rs k i n =
     (case generate_random_sequence mc None MAX_TWEET rs k of
        None \<Rightarrow> None
      | Some (Inl e) \<Rightarrow> Some (Inl e)
      | Some (Inr (out, k')) \<Rightarrow>
          if i = INT_MAX then Some (Inl Int_overflow)
          else
            (case tweets_loop mc rs k' (i + 1) n of
               None \<Rightarrow> None
             | Some (Inl e) \<Rightarrow> Some (Inl e)
             | Some (Inr (ts, k'')) \<Rightarrow> Some (Inr ((i, out) # ts, k''))))"
  by (subst tweets_loop.simps) simp

text \<open>Every tweet the loop prints is one output of \<open>generate_random_sequence\<close>.\<close>

lemma tweets_loop_outputs:
  "tweets_loop mc rs k i n = Some (Inr (ts, k')) \<Longrightarrow>
   \<forall>t \<in> set ts. \<exists>k1 k2. generate_random_sequence mc None MAX_TWEET rs k1 = Some (Inr (snd t, k2))"
proof (induction mc rs k i n arbitrary: ts k' rule: tweets_loop.induct)
  case (1 mc rs k i n)
  show ?case
  proof (cases "n < i")
    case True
    then show ?thesis using 1(2) by (simp add: tweets_loop_stop)
  next
    case False
    then obtain out k1 ts' where g: "generate_random_sequence mc None MAX_TWEET rs k = Some (Inr (out, k1))"
      and l: "tweets_loop mc rs k1 (i + 1) n = Some (Inr (ts', k'))" and ts: "ts = (i, out) # ts'"
      using 1(2) by (auto simp: tweets_loop_step split: option.splits sum.splits prod.splits if_splits)
    have "\<forall>t \<in> set ts'. \<exists>k1 k2. generate_random_sequence mc None MAX_TWEET rs k1 = Some (Inr (snd t, k2))"
      using 1(1) [OF False g refl refl _ l] 1(2) False g by (simp add: tweets_loop_step split: if_splits)
    then show ?thesis using g ts by auto
  qed
qed

text \<open>A completed run with every allocation succeeding: the chain it filled and its
  tweet loop.\<close>

lemma tweets_main_run:
  assumes "tweets_main MIN_ARGC seed n w (Some input) srand (\<lambda>_. True) = Some (Inr (st, ts))"
  shows "\<exists>mc' k. fill_database input MAX_WORD_TO_READ (the (tweets_create_chain True True)) (\<lambda>_. True) =
             Inr (mc', EXIT_SUCCESS) \<and> tweets_state mc' \<and>
           map data (database mc') = foldl store_insert [] (concat (map strtok_tokens (fgets_lines input))) \<and>
           tweets_loop mc' (srand seed) 0 1 n = Some (Inr (ts, k))"
proof -
  obtain mc' where f: "fill_database input MAX_WORD_TO_READ (the (tweets_create_chain True True)) (\<lambda>_. True) =
      Inr (mc', EXIT_SUCCESS)" and st: "tweets_state mc'"
    and m: "map data (database mc') = foldl store_insert [] (concat (map strtok_tokens (fgets_lines input)))"
    using fill_database_tweets [of "the (tweets_create_chain True True)" input]
    by (auto simp: tweets_create_chain_def)
  obtain k where "tweets_loop mc' (srand seed) 0 1 n = Some (Inr (ts, k))"
    using assms f by (auto simp: tweets_main_def MIN_ARGC_def MAX_ARGC_def tweets_create_chain_def
      split: option.splits sum.splits prod.splits)
  then show ?thesis using f st m by blast
qed

lemmas tweets_eval_defs =
  fill_database_def tweets_create_chain_def add_to_database_def get_node_from_database_def add_def
  add_node_to_frequency_list_def tweets_comp_func_def strcmp_def c_str_def tweets_copy_func_def
  strtok_tokens_def DELIMITERS_def MAX_LINE_def MIN_ARGC_def MAX_ARGC_def MAX_TWEET_def

lemma fgets_lines_scenario:
  "fgets_lines scenario_text = [''the cat sat.'' @ [CHR 0x0A], ''the dog ran.'' @ [CHR 0x0A]]"
  by (simp add: markov_eval scenario_text_def MAX_LINE_def)

lemma fill_database_scenario:
  "fill_database scenario_text MAX_WORD_TO_READ (the (tweets_create_chain True True)) (\<lambda>_. True) =
   Inr (scenario_chain, EXIT_SUCCESS)"
  by (simp add: fgets_lines_scenario markov_eval tweets_eval_defs Let_def scenario_chain_def
      cong: sum.case_cong_weak option.case_cong_weak prod.case_cong_weak)

lemmas walk_eval_defs = generate_random_sequence_def get_next_random_node_def get_random_number_def
  MAX_TWEET_def tweets_check_is_last_def c_str_def
lemma scenario_tweets:
  "tweets_loop scenario_chain (\<lambda>k. k) 0 1 2 =
   Some (Inr ([(1, [Render 0, Space, Render 3, Space, Render 4]), (2, [Render 3, Space, Render 4])], 5))"
proof -
  have f0: "get_first_random_node scenario_chain (\<lambda>k. k) 0 = Some (Inr (0, Suc 0))"
    and f3: "get_first_random_node scenario_chain (\<lambda>k. k) 3 = Some (Inr (3, 4))"
    by (simp_all add: markov_eval walk_eval_defs scenario_chain_def)
  have w0: "walk_loop scenario_chain (\<lambda>k. k) 0 19 (Suc 0) = Inr ([Render 3, Space, Render 4], 3)"
    and w3: "walk_loop scenario_chain (\<lambda>k. k) 3 19 4 = Inr ([Render 4], 5)"
    by (simp_all add: markov_eval walk_eval_defs scenario_chain_def eval_nat_numeral
      cong: sum.case_cong_weak option.case_cong_weak prod.case_cong_weak)
  have g: "generate_random_sequence scenario_chain None MAX_TWEET (\<lambda>k. k) 0 =
      Some (Inr ([Render 0, Space, Render 3, Space, Render 4], 3))"
    "generate_random_sequence scenario_chain None MAX_TWEET (\<lambda>k. k) 3 =
      Some (Inr ([Render 3, Space, Render 4], 5))"
    by (simp_all add: generate_random_sequence_def MAX_TWEET_def f0 f3 w0 w3)
  show ?thesis by (simp add: markov_eval g)
qed

subsection \<open>Properties of the tweets client\<close>

text \<open>C13: filling a fresh tweets chain from any input with no word limit and no failed
  allocation succeeds, leaves a well-formed chain, and stores exactly the distinct
  tokens of the input in the order of their first occurrence: it implements the
  abstract store fed with the token stream of \<open>fgets\<close> and \<open>strtok\<close>.\<close>

theorem fill_database_refines:
  "tweets_create_chain True True = Some mc \<Longrightarrow>
   \<exists>mc'. fill_database input MAX_WORD_TO_READ mc (\<lambda>_. True) = Inr (mc', EXIT_SUCCESS) \<and>
     wf_chain mc' \<and>
     map data (database mc') = foldl store_insert [] (concat (map strtok_tokens (fgets_lines input)))"
  using fill_database_tweets [of mc input] by (auto simp: tweets_state_def)

text \<open>C14: \<open>fill_database\<close> ignores the code returned by
  \<open>add_node_to_frequency_list\<close>: on any file whose tokens are pairwise distinct, with
  every allocation of a node succeeding and the two allocations of every link
  succeeding or failing in any way, it returns \<open>EXIT_SUCCESS\<close> with every token
  stored.  A failed link is never reported, against the specification's "never
  silently ignored".\<close>

theorem fill_database_ignores_link_failure:
  assumes c: "tweets_create_chain True True = Some mc"
    and d: "distinct (concat (map strtok_tokens (fgets_lines input)))"
    and al: "\<forall>i. i mod 5 < 3 \<longrightarrow> al i"
  shows "\<exists>mc'. fill_database input MAX_WORD_TO_READ mc al = Inr (mc', EXIT_SUCCESS) \<and>
           map data (database mc') = concat (map strtok_tokens (fgets_lines input))"
proof -
  have "tweets_words mc" "database mc = []"
    using c by (auto simp: tweets_create_chain_def tweets_words_def split: if_splits)
  then show ?thesis using fill_lines_fresh [of mc "fgets_lines input" al 0 0] d al
    by (simp add: fill_database_def)
qed

text \<open>The run of the program on the scenario file.\<close>

lemma tweets_main_scenario_run:
  "tweets_main MIN_ARGC seed 2 w (Some scenario_text) (\<lambda>_ k. k) (\<lambda>_. True) =
     Some (Inr (EXIT_SUCCESS,
       [(1, [Render 0, Space, Render 3, Space, Render 4]), (2, [Render 3, Space, Render 4])]))"
proof -
  obtain fs where "free_markov_chain scenario_chain = Inr (None, fs)"
    using free_markov_chain_ok [of scenario_chain] by (simp add: scenario_chain_def)
  then show ?thesis using fill_database_scenario scenario_tweets
    by (simp add: tweets_main_def MIN_ARGC_def MAX_ARGC_def tweets_create_chain_def)
qed

text \<open>C15: a file whose last word does not end a sentence, \<open>"hello world"\<close>: whatever
  the seed and the generator, the first tweet reaches \<open>world\<close>, which has no
  successor and is not a last word: \<open>get_next_random_node\<close> returns \<open>NULL\<close> for its
  empty frequency list, and \<open>generate_random_sequence\<close> dereferences that \<open>NULL\<close>
  (\<open>next_node->data\<close>).\<close>

theorem tweets_main_dead_end:
  "tweets_main MIN_ARGC seed 1 w (Some ''hello world'') srand (\<lambda>_. True) = Some (Inl Null_dereference)"
proof -
  define dc where "dc = \<lparr>database = [\<lparr>data = ''hello'', frequency_list = [\<lparr>markov_node = 1, frequency = 1\<rparr>], fre_list_size = 1\<rparr>,
                      \<lparr>data = ''world'', frequency_list = [], fre_list_size = 0\<rparr>],
          comp_func = tweets_comp_func, copy_func = tweets_copy_func, is_last = tweets_check_is_last,
          print_func = tweets_print_func\<rparr>"
  have f: "fill_database ''hello world'' MAX_WORD_TO_READ (the (tweets_create_chain True True)) (\<lambda>_. True) =
    Inr (dc, EXIT_SUCCESS)"
    by (simp add: markov_eval tweets_eval_defs Let_def dc_def
      cong: sum.case_cong_weak option.case_cong_weak prod.case_cong_weak)
  have w1: "walk_loop dc rs 1 m k = Inl Null_dereference" if "0 < m" for rs m k
    using that by (cases m) (simp_all add: dc_def walk_eval_defs markov_eval
      cong: sum.case_cong_weak option.case_cong_weak prod.case_cong_weak)
  have w0: "walk_loop dc rs 0 19 k = Inl Null_dereference" for rs k
    using w1 [of 18] by (simp add: dc_def walk_eval_defs markov_eval eval_nat_numeral
      cong: sum.case_cong_weak option.case_cong_weak prod.case_cong_weak)
  have len: "length (database dc) = 2" by (simp add: dc_def)
  have "srand seed 0 mod 2 < 2" by simp
  then have "\<not> is_last dc (data (database dc ! (srand seed 0 mod 2)))"
    using less_2_cases [of "srand seed 0 mod 2"] by (auto simp: dc_def tweets_check_is_last_def c_str_def)
  moreover have "database dc \<noteq> []" by (simp add: dc_def)
  ultimately have "get_first_random_node dc (srand seed) 0 = Some (Inr (srand seed 0 mod 2, 1))"
    using get_first_random_node_found [of dc "srand seed" 0] len by simp
  then obtain i where i: "i < 2" "get_first_random_node dc (srand seed) 0 = Some (Inr (i, 1))"
    by fastforce
  then have "walk_loop dc (srand seed) i 19 1 = Inl Null_dereference"
    using w0 w1 [of 19] by (cases i) auto
  with i have "tweets_loop dc (srand seed) 0 1 1 = Some (Inl Null_dereference)"
    by (simp add: markov_eval generate_random_sequence_def MAX_TWEET_def)
  with f show ?thesis
    by (simp add: tweets_main_def MIN_ARGC_def MAX_ARGC_def tweets_create_chain_def)
qed

text \<open>C16: the error exits of \<open>main\<close>: a wrong argument count exits with
  \<open>EXIT_FAILURE\<close> before anything is read; a file that cannot be opened reaches
  \<open>fclose(NULL)\<close>; a failed allocation in \<open>create_chain\<close> exits with
  \<open>EXIT_FAILURE\<close>.\<close>

theorem tweets_main_errors:
  "(argc \<noteq> MIN_ARGC \<and> argc \<noteq> MAX_ARGC \<longrightarrow>
      tweets_main argc seed n w input srand al = Some (Inr (EXIT_FAILURE, []))) \<and>
   (argc = MIN_ARGC \<or> argc = MAX_ARGC \<longrightarrow>
      tweets_main argc seed n w None srand al = Some (Inl Null_dereference)) \<and>
   (argc = MIN_ARGC \<or> argc = MAX_ARGC \<longrightarrow> \<not> (al 0 \<and> al 1) \<longrightarrow>
      tweets_main argc seed n w (Some contents) srand al = Some (Inr (EXIT_FAILURE, [])))"
  by (auto simp: tweets_main_def tweets_create_chain_def Let_def free_markov_chain_def)

text \<open>C17: with no word limit, no failed allocation and a tweet count below 1, the
  program reads any file and exits with \<open>EXIT_SUCCESS\<close> without printing a
  tweet.\<close>

theorem tweets_main_no_tweets:
  assumes "num_of_tweets < 1"
  shows "tweets_main MIN_ARGC seed num_of_tweets w (Some input) srand (\<lambda>_. True) =
           Some (Inr (EXIT_SUCCESS, []))"
proof -
  obtain mc' where "fill_database input MAX_WORD_TO_READ (the (tweets_create_chain True True)) (\<lambda>_. True) =
      Inr (mc', EXIT_SUCCESS)"
    using fill_database_tweets [of "the (tweets_create_chain True True)" input]
    by (auto simp: tweets_create_chain_def)
  moreover obtain fs where "free_markov_chain mc' = Inr (None, fs)"
    using free_markov_chain_wf fill_database_tweets [of "the (tweets_create_chain True True)" input] calculation
    by (auto simp: tweets_create_chain_def tweets_state_def)
  ultimately show ?thesis using assms
    by (simp add: tweets_main_def MIN_ARGC_def MAX_ARGC_def tweets_create_chain_def markov_eval)
qed

text \<open>C30: a file whose every word ends a sentence, such as \<open>"a. b."\<close>: every node
  of the chain is terminal, so the first tweet's \<open>get_first_random_node\<close> draws
  for ever and the program never terminates, whatever the seed and the generator.\<close>

theorem tweets_main_all_final:
  assumes n: "1 \<le> num_of_tweets"
    and ne: "concat (map strtok_tokens (fgets_lines input)) \<noteq> []"
    and fin: "\<forall>t \<in> set (concat (map strtok_tokens (fgets_lines input))). tweets_check_is_last t"
  shows "tweets_main MIN_ARGC seed num_of_tweets w (Some input) srand (\<lambda>_. True) = None"
proof -
  obtain mc' where f: "fill_database input MAX_WORD_TO_READ (the (tweets_create_chain True True)) (\<lambda>_. True) =
      Inr (mc', EXIT_SUCCESS)" and st: "tweets_state mc'"
    and m: "map data (database mc') = foldl store_insert [] (concat (map strtok_tokens (fgets_lines input)))"
    using fill_database_tweets [of "the (tweets_create_chain True True)" input]
    by (auto simp: tweets_create_chain_def)
  have s: "set (map data (database mc')) = set (concat (map strtok_tokens (fgets_lines input)))"
    unfolding m by (simp add: set_foldl_store_insert)
  have "database mc' \<noteq> []" using s ne by auto
  moreover have "\<forall>i < length (database mc'). is_last mc' (data (database mc' ! i))"
  proof (intro allI impI)
    fix i assume "i < length (database mc')"
    then have "data (database mc' ! i) \<in> set (map data (database mc'))" by simp
    then have "data (database mc' ! i) \<in> set (concat (map strtok_tokens (fgets_lines input)))"
      using s by metis
    with fin have "tweets_check_is_last (data (database mc' ! i))" by blast
    with st show "is_last mc' (data (database mc' ! i))" by (simp add: tweets_state_def)
  qed
  ultimately have "get_first_random_node mc' (srand seed) 0 = None"
    by (rule get_first_random_node_diverges)
  then have "tweets_loop mc' (srand seed) 0 1 num_of_tweets = None"
    using n by (simp add: markov_eval generate_random_sequence_def)
  with f show ?thesis
    by (simp add: tweets_main_def MIN_ARGC_def MAX_ARGC_def tweets_create_chain_def)
qed

text \<open>C32: every word the program prints is a word of the file: with every allocation
  succeeding, a run that ends with a status has filled its chain, every state its
  tweets print is a node of that chain, and the node's word is one of the tokens
  \<open>strtok\<close> cut from the lines \<open>fgets\<close> read.\<close>

theorem tweets_main_words_from_file:
  assumes run: "tweets_main MIN_ARGC seed n w (Some input) srand (\<lambda>_. True) = Some (Inr (st, ts))"
  shows "\<exists>mc'. fill_database input MAX_WORD_TO_READ (the (tweets_create_chain True True)) (\<lambda>_. True) =
             Inr (mc', EXIT_SUCCESS) \<and>
           (\<forall>t \<in> set ts. \<forall>r \<in> set (renders (snd t)). r < length (database mc') \<and>
              data (database mc' ! r) \<in> set (concat (map strtok_tokens (fgets_lines input))))"
proof -
  obtain mc' k where f: "fill_database input MAX_WORD_TO_READ (the (tweets_create_chain True True)) (\<lambda>_. True) =
      Inr (mc', EXIT_SUCCESS)" and st: "tweets_state mc'"
    and m: "map data (database mc') = foldl store_insert [] (concat (map strtok_tokens (fgets_lines input)))"
    and l: "tweets_loop mc' (srand seed) 0 1 n = Some (Inr (ts, k))"
    using tweets_main_run [OF run] by blast
  have wf: "wf_chain mc'" using st by (simp add: tweets_state_def)
  have "r < length (database mc') \<and> data (database mc' ! r) \<in> set (concat (map strtok_tokens (fgets_lines input)))"
    if t: "t \<in> set ts" and r: "r \<in> set (renders (snd t))" for t r
  proof -
    obtain k1 k2 where "generate_random_sequence mc' None MAX_TWEET (srand seed) k1 = Some (Inr (snd t, k2))"
      using tweets_loop_outputs [OF l] t by blast
    then have rl: "r < length (database mc')" using generate_random_sequence_nodes [OF wf] r by blast
    then have "data (database mc' ! r) \<in> set (map data (database mc'))" by simp
    then show ?thesis using rl m by (simp add: set_foldl_store_insert)
  qed
  then show ?thesis using f by blast
qed

text \<open>C33: whatever the word limit and the allocation outcomes, every transition that
  \<open>fill_database\<close> records joins two consecutive tokens of one line of the file
  (\<open>prev\<close> is reset for every line), and its target is a stored node.\<close>

theorem fill_database_links_bigrams:
  assumes "tweets_create_chain True True = Some mc"
    and "fill_database input words_to_read mc al = Inr (mc', st)"
  shows "links_within (line_bigrams input) mc'"
  using fill_database_links_within [OF assms] .

text \<open>C34: every two consecutive words of a printed tweet are consecutive tokens of
  one line of the file: with every allocation succeeding, a completed run's tweets
  follow recorded transitions, and those are the file's bigrams.\<close>

theorem tweets_main_bigrams:
  assumes run: "tweets_main MIN_ARGC seed n w (Some input) srand (\<lambda>_. True) = Some (Inr (st, ts))"
  shows "\<exists>mc'. fill_database input MAX_WORD_TO_READ (the (tweets_create_chain True True)) (\<lambda>_. True) =
             Inr (mc', EXIT_SUCCESS) \<and>
           (\<forall>t \<in> set ts. \<forall>j. Suc j < length (renders (snd t)) \<longrightarrow>
              (data (database mc' ! (renders (snd t) ! j)), data (database mc' ! (renders (snd t) ! Suc j)))
                \<in> line_bigrams input)"
proof -
  obtain mc' k where f: "fill_database input MAX_WORD_TO_READ (the (tweets_create_chain True True)) (\<lambda>_. True) =
      Inr (mc', EXIT_SUCCESS)" and l: "tweets_loop mc' (srand seed) 0 1 n = Some (Inr (ts, k))"
    and st: "tweets_state mc'"
    using tweets_main_run [OF run] by blast
  have c: "tweets_create_chain True True = Some (the (tweets_create_chain True True))"
    by (simp add: tweets_create_chain_def)
  have lw: "links_within (line_bigrams input) mc'" using fill_database_links_within [OF c f] .
  have "(data (database mc' ! (renders (snd t) ! j)), data (database mc' ! (renders (snd t) ! Suc j)))
      \<in> line_bigrams input" if t: "t \<in> set ts" and j: "Suc j < length (renders (snd t))" for t j
  proof -
    obtain k1 k2 where g: "generate_random_sequence mc' None MAX_TWEET (srand seed) k1 = Some (Inr (snd t, k2))"
      using tweets_loop_outputs [OF l] t by blast
    then have "chain_path mc' (renders (snd t))"
      using generate_random_sequence_Inr walk_loop_path by fastforce
    then have "renders (snd t) ! Suc j \<in> set (map markov_node (frequency_list (database mc' ! (renders (snd t) ! j))))"
      using chain_path_nth j by blast
    moreover have "renders (snd t) ! j < length (database mc')"
      using generate_random_sequence_nodes [OF _ g] st j by (simp add: tweets_state_def)
    ultimately show ?thesis using lw unfolding links_within_def by fastforce
  qed
  then show ?thesis using f by blast
qed
text \<open>C25: the word limit: with \<open>words_to_read > 0\<close>, whatever the file and the
  allocation outcomes, \<open>fill_database\<close> adds at most \<open>words_to_read\<close> nodes to
  the chain.\<close>

theorem fill_database_word_limit:
  assumes "0 < words_to_read"
    and "fill_database input words_to_read mc al = Inr (mc', st)"
  shows "length (database mc') \<le> length (database mc) + nat words_to_read"
  using fill_lines_word_limit [OF assms(1) _ assms(2) [unfolded fill_database_def]] assms(1) by simp

text \<open>C27: with a positive word limit and no failed allocation, filling a fresh
  tweets chain from any file returns \<open>EXIT_SUCCESS\<close> with a well-formed chain that
  stores exactly the distinct words among the first \<open>words_to_read\<close> tokens of the
  file, in the order of their first occurrence.\<close>

theorem fill_database_limit_refines:
  assumes "tweets_create_chain True True = Some mc" and "0 < words_to_read"
  shows "\<exists>mc'. fill_database input words_to_read mc (\<lambda>_. True) = Inr (mc', EXIT_SUCCESS) \<and> wf_chain mc' \<and>
     map data (database mc') =
       foldl store_insert [] (take (nat words_to_read) (concat (map strtok_tokens (fgets_lines input))))"
  using fill_lines_limit_tweets [of mc words_to_read 0 "fgets_lines input" 0] tweets_create_chain_Some [OF assms(1)]
    assms(2) by (auto simp: fill_database_def tweets_state_def)

end
