(* ===== verification/Snakes_Board.thy ===== *)
theory Snakes_Board
  imports Markov_Walk Markov_Teardown
begin

text \<open>
  The board of the snakes-and-ladders client \<open>src/snakes_and_ladders.c\<close>: the
  \<open>Cell\<close> struct, the constant table \<open>transitions\<close>, \<open>create_board\<close> (one
  allocation per cell, then the ladders and snakes written into the cells), and the
  four behaviours that make a \<open>MarkovChain\<close> over cells.  A C array of cell pointers
  is the list of the cells it points to; the reference \<open>board\<close> is the board the
  comment above \<open>transitions\<close> describes.
\<close>

subsection \<open>Cells and the transition table\<close>

record Cell =
  number :: int
  ladder_to :: int
  snake_to :: int

definition EMPTY :: int where "EMPTY = -1"
definition BOARD_SIZE :: nat where "BOARD_SIZE = 100"
definition DICE_MAX :: int where "DICE_MAX = 6"
definition MAX_GENERATION_LENGTH :: int where "MAX_GENERATION_LENGTH = 60"
definition ARGS :: nat where "ARGS = 3"
definition NUM_OF_TRANSITIONS :: nat where "NUM_OF_TRANSITIONS = 20"

text \<open>The macro \<open>MAX(X, Y)\<close>, \<open>((X) < (Y)) ? (Y) : (X)\<close>, on the \<open>int\<close> fields it is
  applied to (\<open>MAX\<close> itself is taken by HOL's syntax).\<close>

definition MAX_int :: "int \<Rightarrow> int \<Rightarrow> int" where "MAX_int x y = (if x < y then y else x)"

text \<open>The twenty pairs \<open>(from, to)\<close>; the loop of \<open>create_board\<close> reads the first
  \<open>NUM_OF_TRANSITIONS\<close> of them, that is all of them.\<close>

definition transitions :: "(int \<times> int) list" where
  "transitions =
     [(13, 4), (85, 17), (95, 67), (97, 58), (66, 89), (87, 31), (57, 83), (91, 25), (28, 50),
      (35, 11), (8, 30), (41, 62), (81, 43), (69, 32), (20, 39), (33, 70), (79, 99), (23, 76),
      (15, 47), (61, 14)]"

text \<open>\<open>handle_error_snakes\<close>: prints the message, tears the chain down when one is
  given, and returns \<open>EXIT_FAILURE\<close>.  \<open>create_board\<close> calls it with \<open>NULL\<close>, where
  it only prints.\<close>

definition handle_error_snakes :: "Cell MarkovChain option \<Rightarrow> error + status" where
  "handle_error_snakes chain =
     (case chain of
        None \<Rightarrow> Inr EXIT_FAILURE
      | Some mc \<Rightarrow>
          (case free_markov_chain mc of
             Inl e \<Rightarrow> Inl e
           | Inr _ \<Rightarrow> Inr EXIT_FAILURE))"

subsection \<open>\<open>create_board\<close>\<close>

text \<open>The first loop: \<open>cells[i] = malloc(sizeof(Cell))\<close> and
  \<open>*(cells[i]) = (Cell){i + 1, EMPTY, EMPTY}\<close>; the first failed allocation frees
  the cells before it and makes the function return \<open>EXIT_FAILURE\<close> (\<open>None\<close>).\<close>

primrec alloc_cells :: "alloc_source \<Rightarrow> nat \<Rightarrow> Cell list option" where
  "alloc_cells al 0 = Some []"
| "alloc_cells al (Suc i) =
     (case alloc_cells al i of
        None \<Rightarrow> None
      | Some cs \<Rightarrow>
          if al i then Some (cs @ [\<lparr>number = int i + 1, ladder_to = EMPTY, snake_to = EMPTY\<rparr>])
          else None)"

text \<open>The second loop: for each pair, \<open>cells[from - 1]\<close> gets \<open>ladder_to = to\<close> when
  \<open>from < to\<close> and \<open>snake_to = to\<close> otherwise.  An index outside the array is the
  out-of-bounds write it would be in C.\<close>

fun apply_transitions :: "(int \<times> int) list \<Rightarrow> Cell list \<Rightarrow> error + Cell list" where
  "apply_transitions [] cells = Inr cells"
| "apply_transitions ((f, t) # ts) cells =
     (if f - 1 < 0 \<or> int (length cells) \<le> f - 1 then Inl Out_of_bounds
      else
        let c = cells ! nat (f - 1) in
        apply_transitions ts
          (cells[nat (f - 1) := (if f < t then c\<lparr>ladder_to := t\<rparr> else c\<lparr>snake_to := t\<rparr>)]))"

text \<open>\<open>Inr None\<close> is the \<open>EXIT_FAILURE\<close> of a failed allocation, \<open>Inr (Some cells)\<close>
  the filled array.\<close>

definition create_board :: "alloc_source \<Rightarrow> error + Cell list option" where
  "create_board al =
     (case alloc_cells al BOARD_SIZE of
        None \<Rightarrow> Inr None
      | Some cells \<Rightarrow> map_sum id Some (apply_transitions (take NUM_OF_TRANSITIONS transitions) cells))"

subsection \<open>The behaviours\<close>

text \<open>\<open>printf("%d", n)\<close>: the decimal digits of a number.\<close>

function nat_str :: "nat \<Rightarrow> string" where
  "nat_str n = (if n < 10 then [''0123456789'' ! n] else nat_str (n div 10) @ [''0123456789'' ! (n mod 10)])"
  by pat_completeness auto
termination
  by (relation "measure id") auto

definition int_str :: "int \<Rightarrow> string" where
  "int_str i = (if i < 0 then CHR ''-'' # nat_str (nat (- i)) else nat_str (nat i))"

definition snakes_print_func :: "Cell \<Rightarrow> string" where
  "snakes_print_func c =
     (if number c = int BOARD_SIZE then ''['' @ int_str (number c) @ '']''
      else if ladder_to c \<noteq> EMPTY then ''['' @ int_str (number c) @ ''] -ladder to->''
      else if snake_to c \<noteq> EMPTY then ''['' @ int_str (number c) @ ''] -snake to->''
      else ''['' @ int_str (number c) @ ''] ->'')"

text \<open>\<open>check_is_last\<close>: the last cell of the board.\<close>

definition snakes_check_is_last :: "Cell \<Rightarrow> bool" where
  "snakes_check_is_last c = (number c = int BOARD_SIZE)"

text \<open>\<open>comp_func\<close>: the difference of the cell numbers (the numbers of the board
  are 1 to 100, so the subtraction does not overflow).\<close>

definition snakes_comp_func :: "Cell \<Rightarrow> Cell \<Rightarrow> int" where
  "snakes_comp_func a b = number a - number b"

text \<open>\<open>copy_func\<close>: a fresh cell with the three fields copied (a failed \<open>malloc\<close>
  there returns \<open>NULL\<close>, which \<open>add_to_database\<close> stores unchecked; that path is not
  modelled).\<close>

definition snakes_copy_func :: "Cell \<Rightarrow> Cell" where
  "snakes_copy_func c = \<lparr>number = number c, ladder_to = ladder_to c, snake_to = snake_to c\<rparr>"

text \<open>\<open>free_func\<close>, stored in \<open>free_data\<close> and never called: the chain's teardown.\<close>

definition snakes_free_func :: "Cell MarkovChain \<Rightarrow> error + (Cell MarkovChain option \<times> heap_obj list)" where
  "snakes_free_func mc = free_markov_chain mc"

text \<open>\<open>create_chain\<close>: two allocations, the chain and its list.\<close>

definition snakes_create_chain :: "bool \<Rightarrow> bool \<Rightarrow> Cell MarkovChain option" where
  "snakes_create_chain ok_chain ok_list =
     (if ok_chain \<and> ok_list then
        Some \<lparr>database = [], comp_func = snakes_comp_func, copy_func = snakes_copy_func,
              is_last = snakes_check_is_last, print_func = snakes_print_func\<rparr>
      else None)"

subsection \<open>The reference board\<close>

text \<open>What the comment above \<open>transitions\<close> says the board is: cell \<open>n\<close> has a
  ladder to \<open>to\<close> when \<open>(n, to)\<close> is a pair with \<open>n < to\<close>, a snake to \<open>to\<close> when it
  is a pair with \<open>n \<ge> to\<close>, and neither (\<open>EMPTY\<close>) otherwise.\<close>

definition board_cell :: "int \<Rightarrow> Cell" where
  "board_cell n =
     (case map_of transitions n of
        None \<Rightarrow> \<lparr>number = n, ladder_to = EMPTY, snake_to = EMPTY\<rparr>
      | Some t \<Rightarrow>
          if n < t then \<lparr>number = n, ladder_to = t, snake_to = EMPTY\<rparr>
          else \<lparr>number = n, ladder_to = EMPTY, snake_to = t\<rparr>)"

definition board :: "Cell list" where
  "board = map (\<lambda>i. board_cell (int i + 1)) [0..<BOARD_SIZE]"

text \<open>The effect of one pair on one cell, and of the whole table.\<close>

definition transition_step :: "Cell \<Rightarrow> int \<times> int \<Rightarrow> Cell" where
  "transition_step c ft =
     (if number c = fst ft then
        (if fst ft < snd ft then c\<lparr>ladder_to := snd ft\<rparr> else c\<lparr>snake_to := snd ft\<rparr>)
      else c)"

declare nat_str.simps [simp del]

lemma take_transitions [simp]: "take NUM_OF_TRANSITIONS transitions = transitions"
  by (simp add: NUM_OF_TRANSITIONS_def transitions_def)

lemma MAX_int_max [simp]: "MAX_int x y = max x y"
  by (simp add: MAX_int_def max_def)

subsection \<open>The allocation loop\<close>

lemma alloc_cells_ok:
  "(\<forall>i < n. al i) \<Longrightarrow>
   alloc_cells al n = Some (map (\<lambda>i. \<lparr>number = int i + 1, ladder_to = EMPTY, snake_to = EMPTY\<rparr>) [0..<n])"
  by (induction n) simp_all

lemma alloc_cells_fail: "i < n \<Longrightarrow> \<not> al i \<Longrightarrow> alloc_cells al n = None"
proof (induction n)
  case (Suc n)
  then show ?case by (cases "i = n") (auto split: option.splits)
qed simp

subsection \<open>The transition loop\<close>

lemma transition_step_number [simp]: "number (transition_step c ft) = number c"
  by (simp add: transition_step_def)

lemma foldl_transition_step_number [simp]: "number (foldl transition_step c ts) = number c"
  by (induction ts arbitrary: c) simp_all

text \<open>On an array whose cell \<open>i\<close> has number \<open>i + 1\<close>, writing the pairs one by one
  into \<open>cells[from - 1]\<close> is applying every pair to every cell whose number is its
  \<open>from\<close>.\<close>

lemma apply_transitions_map:
  assumes "\<forall>i < length cs. number (cs ! i) = int i + 1"
    and "\<forall>ft \<in> set ts. 1 \<le> fst ft \<and> fst ft \<le> int (length cs)"
  shows "apply_transitions ts cs = Inr (map (\<lambda>c. foldl transition_step c ts) cs)"
  using assms
proof (induction ts arbitrary: cs)
  case Nil
  then show ?case by simp
next
  case (Cons ft ts)
  obtain f t where ft: "ft = (f, t)" by (cases ft)
  let ?k = "nat (f - 1)"
  have k: "?k < length cs" and fk: "f = int ?k + 1" using Cons.prems(2) ft by auto
  let ?cs' = "cs[?k := (if f < t then (cs ! ?k)\<lparr>ladder_to := t\<rparr> else (cs ! ?k)\<lparr>snake_to := t\<rparr>)]"
  have step: "?cs' = map (\<lambda>c. transition_step c (f, t)) cs"
  proof (rule nth_equalityI)
    fix i assume "i < length ?cs'"
    then show "?cs' ! i = map (\<lambda>c. transition_step c (f, t)) cs ! i"
      using Cons.prems(1) fk by (cases "i = ?k") (auto simp: transition_step_def)
  qed simp
  have num: "\<forall>i < length ?cs'. number (?cs' ! i) = int i + 1"
    using Cons.prems(1) unfolding step by simp
  have rng: "\<forall>ft \<in> set ts. 1 \<le> fst ft \<and> fst ft \<le> int (length ?cs')" using Cons.prems(2) by simp
  have "\<not> (f - 1 < 0 \<or> int (length cs) \<le> f - 1)" using Cons.prems(2) ft by auto
  then have "apply_transitions (ft # ts) cs = apply_transitions ts ?cs'" by (simp add: ft Let_def)
  also have "\<dots> = Inr (map (\<lambda>c. foldl transition_step c ts) ?cs')" using Cons.IH [OF num rng] .
  finally show ?case by (simp add: step ft)
qed

lemma foldl_transition_step_other:
  "map_of ts (number c) = None \<Longrightarrow> foldl transition_step c ts = c"
  by (induction ts) (auto simp: transition_step_def split: if_splits)

text \<open>With pairwise different \<open>from\<close>s, the pairs applied to a cell are its entry of
  the table read as a map.\<close>

lemma foldl_transition_step_map_of:
  "distinct (map fst ts) \<Longrightarrow>
   foldl transition_step c ts =
     (case map_of ts (number c) of
        None \<Rightarrow> c
      | Some t \<Rightarrow> if number c < t then c\<lparr>ladder_to := t\<rparr> else c\<lparr>snake_to := t\<rparr>)"
proof (induction ts arbitrary: c)
  case (Cons ft ts)
  show ?case
  proof (cases "number c = fst ft")
    case True
    then have "map_of ts (number c) = None" using Cons.prems by (auto simp: map_of_eq_None_iff)
    then have eq: "foldl transition_step c (ft # ts) = transition_step c ft"
      using foldl_transition_step_other [of ts "transition_step c ft"] by simp
    show ?thesis unfolding eq using True by (cases ft) (simp add: transition_step_def)
  next
    case False
    then show ?thesis using Cons by (cases ft) (simp add: transition_step_def)
  qed
qed simp

lemma transitions_facts:
  "distinct (map fst transitions)"
  "\<forall>ft \<in> set transitions. 1 \<le> fst ft \<and> fst ft < int BOARD_SIZE \<and> 1 \<le> snd ft \<and> snd ft \<le> int BOARD_SIZE"
  by (simp_all add: transitions_def BOARD_SIZE_def)

subsection \<open>The reference board\<close>

lemma board_length [simp]: "length board = BOARD_SIZE"
  by (simp add: board_def)

lemma board_nth: "i < BOARD_SIZE \<Longrightarrow> board ! i = board_cell (int i + 1)"
  by (simp add: board_def)

lemma number_board_cell [simp]: "number (board_cell n) = n"
  by (simp add: board_cell_def split: option.splits)

lemma number_board [simp]: "i < BOARD_SIZE \<Longrightarrow> number (board ! i) = int i + 1"
  by (simp add: board_nth)

lemma distinct_board_numbers: "distinct (map number board)"
  by (simp add: board_def distinct_map inj_on_def comp_def)

text \<open>A cell of the board has a ladder or a snake exactly when its number is a
  \<open>from\<close> of the table, and then the larger of its two fields is the \<open>to\<close>.\<close>

lemma board_cell_jump:
  "map_of transitions n = Some t \<Longrightarrow>
     (snake_to (board_cell n) \<noteq> EMPTY \<or> ladder_to (board_cell n) \<noteq> EMPTY) \<and>
     max (snake_to (board_cell n)) (ladder_to (board_cell n)) = t \<and> 1 \<le> t \<and> t \<le> int BOARD_SIZE"
  using transitions_facts(2) map_of_SomeD [of transitions n t]
  by (auto simp: board_cell_def EMPTY_def)

lemma board_cell_plain:
  "map_of transitions n = None \<Longrightarrow>
     snake_to (board_cell n) = EMPTY \<and> ladder_to (board_cell n) = EMPTY"
  by (simp add: board_cell_def)

lemma snakes_copy_id [simp]: "snakes_copy_func c = c"
  by (simp add: snakes_copy_func_def)

lemma snakes_comp_eq_0 [simp]: "snakes_comp_func a b = 0 \<longleftrightarrow> number a = number b"
  by (simp add: snakes_comp_func_def)

lemma snakes_contract:
  "comp_func mc = snakes_comp_func \<Longrightarrow> copy_func mc = snakes_copy_func \<Longrightarrow> comp_contract mc"
  by (simp add: comp_contract_def)

lemma nat_str_digit [markov_eval]: "n < 10 \<Longrightarrow> nat_str n = [''0123456789'' ! n]"
  by (simp add: nat_str.simps)

lemma nat_str_digits [markov_eval]:
  "\<not> n < 10 \<Longrightarrow> nat_str n = nat_str (n div 10) @ [''0123456789'' ! (n mod 10)]"
  by (subst nat_str.simps) simp

lemma init_cells_board:
  "map (\<lambda>c. foldl transition_step c transitions)
     (map (\<lambda>i. \<lparr>number = int i + 1, ladder_to = EMPTY, snake_to = EMPTY\<rparr>) [0..<BOARD_SIZE]) = board"
proof -
  have "foldl transition_step \<lparr>number = int i + 1, ladder_to = EMPTY, snake_to = EMPTY\<rparr> transitions =
      board_cell (int i + 1)" for i
    by (simp add: foldl_transition_step_map_of [OF transitions_facts(1)] board_cell_def split: option.split)
  then show ?thesis by (simp add: board_def)
qed

lemma create_board_ok: "(\<forall>i < BOARD_SIZE. al i) \<Longrightarrow> create_board al = Inr (Some board)"
proof -
  assume ok: "\<forall>i < BOARD_SIZE. al i"
  let ?L = "map (\<lambda>i. \<lparr>number = int i + 1, ladder_to = EMPTY, snake_to = EMPTY\<rparr>) [0..<BOARD_SIZE]"
  have a: "alloc_cells al BOARD_SIZE = Some ?L" using ok by (rule alloc_cells_ok)
  have num: "\<forall>i < length ?L. number (?L ! i) = int i + 1" by simp
  have rng: "\<forall>ft \<in> set transitions. 1 \<le> fst ft \<and> fst ft \<le> int (length ?L)"
    using transitions_facts(2) by fastforce
  show ?thesis
    using apply_transitions_map [OF num rng] a init_cells_board by (simp add: create_board_def)
qed

lemma create_board_alloc_fail: "i < BOARD_SIZE \<Longrightarrow> \<not> al i \<Longrightarrow> create_board al = Inr None"
  using alloc_cells_fail [of i BOARD_SIZE al] by (simp add: create_board_def)

subsection \<open>Properties of the board\<close>

text \<open>C18: with every allocation succeeding, \<open>create_board\<close> builds exactly the
  reference board: cell \<open>i + 1\<close> at index \<open>i\<close>, a ladder where a pair goes up, a
  snake where it goes down (so \<open>{13, 4}\<close> is a snake), \<open>EMPTY\<close> elsewhere; and a
  failed allocation of any cell makes it report \<open>EXIT_FAILURE\<close>.\<close>

theorem create_board_refines:
  "create_board (\<lambda>_. True) = Inr (Some board) \<and>
   (i < BOARD_SIZE \<and> \<not> al i \<longrightarrow> create_board al = Inr None)"
  using create_board_ok [of "\<lambda>_. True"] create_board_alloc_fail [of i al] by simp

text \<open>C19: the cell behaviours meet the engine's interface: \<open>comp_func\<close> returning 0
  (equal numbers) is an equivalence, the copy compares equal to its original, and a
  created chain is empty and well formed; \<open>create_chain\<close> fails exactly when one of
  its two allocations does.\<close>

theorem snakes_create_chain_contract:
  "snakes_create_chain ok_chain ok_list = Some mc \<Longrightarrow>
     ok_chain \<and> ok_list \<and> comp_contract mc \<and> wf_chain mc \<and> database mc = [] \<and>
     is_last mc = snakes_check_is_last"
  by (auto simp: snakes_create_chain_def comp_contract_def wf_chain_def db_unique_def split: if_splits)

end
