(* ===== verification/Snakes.thy ===== *)
theory Snakes
  imports Snakes_Board Markov_Teardown
begin

text \<open>
  The snakes-and-ladders client \<open>src/snakes_and_ladders.c\<close> after its board:
  \<open>fill_database_snakes\<close> (add the hundred cells, then link each cell to the
  destination of its ladder or snake, or to the next one to six cells), the walk loop
  of \<open>main\<close> and \<open>main\<close> itself, with the \<open>free_markov_chain\<close> of its exits.  The allocation outcomes are read in program order:
  the hundred cells of \<open>create_board\<close>, three per \<open>add_to_database\<close>, two per
  \<open>add_node_to_frequency_list\<close>.  The reference \<open>board_chain\<close> is the chain the
  game describes.
\<close>

subsection \<open>Filling the database\<close>

text \<open>\<open>for (i = 0; i < BOARD_SIZE; i++) add_to_database(markov_chain, cells[i]);\<close>:
  the returned node is ignored, so a failed insertion goes unnoticed.\<close>

fun add_cells :: "Cell MarkovChain \<Rightarrow> Cell list \<Rightarrow> alloc_source \<Rightarrow> nat \<Rightarrow> Cell MarkovChain \<times> nat" where
  "add_cells mc [] al a = (mc, a)"
| "add_cells mc (c # cs) al a =
     add_cells (fst (add_to_database mc c (al a) (al (a + 1)) (al (a + 2)))) cs al (a + 3)"

text \<open>The dice loop \<open>for (int j = 1; j <= DICE_MAX; j++)\<close> of a cell without ladder
  or snake: the target is cell \<open>number + j\<close>, read from the node's own copy of the
  cell; an index past the board (or negative, which is huge as a \<open>size_t\<close>) ends the
  loop; a failed link makes \<open>fill_database_snakes\<close> return \<open>EXIT_FAILURE\<close>
  (\<open>Some\<close>).\<close>

function dice_loop ::
  "Cell MarkovChain \<Rightarrow> Cell list \<Rightarrow> nat \<Rightarrow> int \<Rightarrow> alloc_source \<Rightarrow> nat \<Rightarrow>
   error + (Cell MarkovChain \<times> nat \<times> status option)" where
  "dice_loop mc cells from_node j al a =
     (if DICE_MAX < j then Inr (mc, a, None)
      else
        let index_to = number (data (database mc ! from_node)) + j - 1 in
        if index_to < 0 \<or> int BOARD_SIZE \<le> index_to then Inr (mc, a, None)
        else
          (case nth_checked cells (nat index_to) of
             Inl e \<Rightarrow> Inl e
           | Inr c \<Rightarrow>
               (case get_node_from_database mc c of
                  None \<Rightarrow> Inl Null_dereference
                | Some to_node \<Rightarrow>
                    (case add_node_to_frequency_list mc from_node to_node (al a) (al (a + 1)) of
                       Inl e \<Rightarrow> Inl e
                     | Inr (mc', EXIT_FAILURE) \<Rightarrow> Inr (mc', a + 2, Some EXIT_FAILURE)
                     | Inr (mc', EXIT_SUCCESS) \<Rightarrow> dice_loop mc' cells from_node (j + 1) al (a + 2)))))"
  by pat_completeness auto
termination
  by (relation "measure (\<lambda>(mc, cells, f, j, al, a). nat (DICE_MAX + 1 - j))") auto

text \<open>The second loop over the cells: the node of \<open>cells[i]\<close> (its \<open>NULL\<close> is
  dereferenced), then either the single link to \<open>MAX(snake_to, ladder_to) - 1\<close>,
  whose result is ignored, or the dice loop.\<close>

fun link_loop ::
  "Cell MarkovChain \<Rightarrow> Cell list \<Rightarrow> Cell list \<Rightarrow> alloc_source \<Rightarrow> nat \<Rightarrow>
   error + (Cell MarkovChain \<times> nat \<times> status)" where
  "link_loop mc cells [] al a = Inr (mc, a, EXIT_SUCCESS)"
| "link_loop mc cells (c # cs) al a =
     (case get_node_from_database mc c of
        None \<Rightarrow> Inl Null_dereference
      | Some from_node \<Rightarrow>
          if snake_to c \<noteq> EMPTY \<or> ladder_to c \<noteq> EMPTY then
            (let index_to = MAX_int (snake_to c) (ladder_to c) - 1 in
             case (if index_to < 0 then Inl Out_of_bounds else nth_checked cells (nat index_to)) of
               Inl e \<Rightarrow> Inl e
             | Inr ct \<Rightarrow>
                 (case get_node_from_database mc ct of
                    None \<Rightarrow> Inl Null_dereference
                  | Some to_node \<Rightarrow>
                      (case add_node_to_frequency_list mc from_node to_node (al a) (al (a + 1)) of
                         Inl e \<Rightarrow> Inl e
                       | Inr (mc', _) \<Rightarrow> link_loop mc' cells cs al (a + 2))))
          else
            (case dice_loop mc cells from_node 1 al a of
               Inl e \<Rightarrow> Inl e
             | Inr (mc', a', Some st) \<Rightarrow> Inr (mc', a', st)
             | Inr (mc', a', None) \<Rightarrow> link_loop mc' cells cs al a'))"

text \<open>\<open>fill_database_snakes\<close>: \<open>create_board\<close> on the first \<open>BOARD_SIZE\<close> allocation
  outcomes, then the two loops.\<close>

definition fill_database_snakes ::
  "Cell MarkovChain \<Rightarrow> alloc_source \<Rightarrow> error + (Cell MarkovChain \<times> status)" where
  "fill_database_snakes mc al =
     (case create_board al of
        Inl e \<Rightarrow> Inl e
      | Inr None \<Rightarrow> Inr (mc, EXIT_FAILURE)
      | Inr (Some cells) \<Rightarrow>
          (case add_cells mc cells al BOARD_SIZE of
             (mc1, a) \<Rightarrow>
               (case link_loop mc1 cells cells al a of
                  Inl e \<Rightarrow> Inl e
                | Inr (mc', a', st) \<Rightarrow> Inr (mc', st))))"

subsection \<open>The program\<close>

text \<open>\<open>for (int i = 0; i < walks_num; ++i)\<close>: walk \<open>i + 1\<close> starts at the first node
  of the database (\<open>chain->database->first->data\<close>, a \<open>NULL\<close> dereference when the
  database is empty) and prints at most \<open>MAX_GENERATION_LENGTH\<close> cells.\<close>

function snakes_loop ::
  "Cell MarkovChain \<Rightarrow> rand_source \<Rightarrow> nat \<Rightarrow> int \<Rightarrow> int \<Rightarrow>
   (error + ((int \<times> out_event list) list \<times> nat)) option" where
  "snakes_loop mc rs k i walks_num =
     (if walks_num \<le> i then Some (Inr ([], k))
      else if database mc = [] then Some (Inl Null_dereference)
      else
        case generate_random_sequence mc (Some 0) MAX_GENERATION_LENGTH rs k of
          None \<Rightarrow> None
        | Some (Inl e) \<Rightarrow> Some (Inl e)
        | Some (Inr (out, k')) \<Rightarrow>
            (case snakes_loop mc rs k' (i + 1) walks_num of
               None \<Rightarrow> None
             | Some (Inl e) \<Rightarrow> Some (Inl e)
             | Some (Inr (ws, k'')) \<Rightarrow> Some (Inr ((i + 1, out) # ws, k''))))"
  by pat_completeness auto
termination
  by (relation "measure (\<lambda>(mc, rs, k, i, n). nat (n - i))") auto

text \<open>\<open>main\<close>: the argument count, \<open>srand(strtol(argv[1]))\<close> (the generator
  \<open>srand seed\<close>), the walk count \<open>argv[2]\<close> (taken as parsed), \<open>create_chain\<close> (the
  first two allocations), \<open>fill_database_snakes\<close> (the allocations after them) and
  the walks.\<close>

definition snakes_main ::
  "nat \<Rightarrow> int \<Rightarrow> int \<Rightarrow> (int \<Rightarrow> rand_source) \<Rightarrow> alloc_source \<Rightarrow>
   (error + (status \<times> (int \<times> out_event list) list)) option" where
  "snakes_main argc seed walks_num srand al =
     (if argc \<noteq> ARGS then Some (Inr (EXIT_FAILURE, []))
      else
        case snakes_create_chain (al 0) (al 1) of
          None \<Rightarrow> Some (Inr (EXIT_FAILURE, []))
        | Some mc \<Rightarrow>
            (case fill_database_snakes mc (\<lambda>i. al (i + 2)) of
               Inl e \<Rightarrow> Some (Inl e)
             | Inr (mc', EXIT_FAILURE) \<Rightarrow>
                 (case free_markov_chain mc' of
                    Inl e \<Rightarrow> Some (Inl e)
                  | Inr _ \<Rightarrow> Some (Inr (EXIT_FAILURE, [])))
             | Inr (mc', EXIT_SUCCESS) \<Rightarrow>
                 (case snakes_loop mc' (srand seed) 0 0 walks_num of
                    None \<Rightarrow> None
                  | Some (Inl e) \<Rightarrow> Some (Inl e)
                  | Some (Inr (ws, k)) \<Rightarrow>
                      (case free_markov_chain mc' of
                         Inl e \<Rightarrow> Some (Inl e)
                       | Inr _ \<Rightarrow> Some (Inr (EXIT_SUCCESS, ws))))))"

subsection \<open>The game the chain should encode\<close>

text \<open>The successors of cell \<open>j + 1\<close> (index \<open>j\<close>) in the game: the destination of
  its ladder or snake, or else the cells one to six ahead that are on the board.\<close>

definition board_targets :: "nat \<Rightarrow> nat list" where
  "board_targets j =
     (case map_of transitions (int j + 1) of
        Some t \<Rightarrow> [nat t - 1]
      | None \<Rightarrow> [Suc j..<min (j + 7) BOARD_SIZE])"

definition board_node :: "nat \<Rightarrow> Cell MarkovNode" where
  "board_node j =
     \<lparr>data = board ! j,
      frequency_list = map (\<lambda>t. \<lparr>markov_node = t, frequency = 1\<rparr>) (board_targets j),
      fre_list_size = length (board_targets j)\<rparr>"

definition board_chain :: "Cell MarkovChain" where
  "board_chain =
     \<lparr>database = map board_node [0..<BOARD_SIZE], comp_func = snakes_comp_func,
      copy_func = snakes_copy_func, is_last = snakes_check_is_last, print_func = snakes_print_func\<rparr>"

text \<open>A legal sequence of cells of the game, as indices.\<close>

fun board_path :: "nat list \<Rightarrow> bool" where
  "board_path (a # b # ns) = (b \<in> set (board_targets a) \<and> board_path (b # ns))"
| "board_path ns = True"

text \<open>The state of a snakes chain while its links are added: the cell behaviours, a
  well-formed chain, and the cells of the board stored in order.\<close>

definition snakes_state :: "Cell MarkovChain \<Rightarrow> bool" where
  "snakes_state mc \<longleftrightarrow>
     comp_func mc = snakes_comp_func \<and> copy_func mc = snakes_copy_func \<and>
     is_last mc = snakes_check_is_last \<and> print_func mc = snakes_print_func \<and>
     wf_chain mc \<and> map data (database mc) = board"

abbreviation once :: "nat \<Rightarrow> MarkovNodeFrequency" where
  "once t \<equiv> \<lparr>markov_node = t, frequency = 1\<rparr>"

text \<open>A walk the program may print for the game: it starts at cell 1, moves only
  along the game's moves, prints at most \<open>MAX_GENERATION_LENGTH\<close> cells, and ends on
  cell 100 or, cut at that length, with the trailing blank.\<close>

definition legal_walk :: "out_event list \<Rightarrow> bool" where
  "legal_walk out \<longleftrightarrow>
     renders out \<noteq> [] \<and> hd (renders out) = 0 \<and> board_path (renders out) \<and>
     length (renders out) \<le> nat MAX_GENERATION_LENGTH \<and>
     (last out = Render (BOARD_SIZE - 1) \<or>
      (last out = Space \<and> length (renders out) = nat MAX_GENERATION_LENGTH))"

text \<open>A generator that makes a walk from cell 1 go to cell 4 and then round the loop
  \<open>4 -> 10 -> 13 -> 4\<close> (a roll of 6, a roll of 3, the snake back to 4).\<close>

definition cycle_rand :: rand_source where
  "cycle_rand k = (if k = 0 then 2 else [5, 2, 0] ! ((k - 1) mod 3))"

declare dice_loop.simps [simp del] snakes_loop.simps [simp del]

subsection \<open>Adding the cells\<close>

lemma add_cells_fresh:
  assumes "comp_func mc = snakes_comp_func" "copy_func mc = snakes_copy_func"
    and "distinct (map (\<lambda>n. number (data n)) (database mc) @ map number cs)"
  shows "add_cells mc cs (\<lambda>_. True) a =
           (mc\<lparr>database := database mc @ map (\<lambda>c. \<lparr>data = c, frequency_list = [], fre_list_size = 0\<rparr>) cs\<rparr>,
            a + 3 * length cs)"
  using assms
proof (induction cs arbitrary: mc a)
  case Nil
  then show ?case by simp
next
  case (Cons c cs)
  have "\<forall>j < length (database mc). number (data (database mc ! j)) \<noteq> number c"
  proof (intro allI impI)
    fix j assume "j < length (database mc)"
    then have "database mc ! j \<in> set (database mc)" by simp
    then have "number (data (database mc ! j)) \<in> (\<lambda>a. number (data a)) ` set (database mc)"
      by (rule imageI)
    then show "number (data (database mc ! j)) \<noteq> number c" using Cons.prems(3) by auto
  qed
  then have "get_node_from_database mc c = None"
    using Cons.prems(1) by (simp add: get_node_from_database_None)
  then have "add_to_database mc c True True True =
      (mc\<lparr>database := database mc @ [\<lparr>data = c, frequency_list = [], fre_list_size = 0\<rparr>]\<rparr>,
       Some (length (database mc)))"
    using Cons.prems(2) by (simp add: add_to_database_new)
  moreover have "distinct (map (\<lambda>n. number (data n)) (database mc @ [\<lparr>data = c, frequency_list = [], fre_list_size = 0\<rparr>]) @
      map number cs)"
    using Cons.prems(3) by simp
  ultimately show ?case using Cons.IH [of "mc\<lparr>database := database mc @ [\<lparr>data = c, frequency_list = [], fre_list_size = 0\<rparr>]\<rparr>"]
      Cons.prems(1,2) by simp
qed

lemma get_node_board:
  assumes "comp_func mc = snakes_comp_func" "map data (database mc) = board" "i < BOARD_SIZE"
  shows "get_node_from_database mc (board ! i) = Some i"
proof -
  have l: "length (database mc) = BOARD_SIZE" using assms(2) by (metis board_length length_map)
  have d: "data (database mc ! j) = board ! j" if "j < BOARD_SIZE" for j
    using assms(2) that l by (metis nth_map)
  show ?thesis using assms(1,3) l d by (auto simp: get_node_from_database_Some)
qed

lemma snakes_state_contract: "snakes_state mc \<Longrightarrow> comp_contract mc"
  by (simp add: snakes_state_def snakes_contract)

lemma snakes_state_length: "snakes_state mc \<Longrightarrow> length (database mc) = BOARD_SIZE"
  by (metis snakes_state_def board_length length_map)

lemma snakes_state_data: "snakes_state mc \<Longrightarrow> j < BOARD_SIZE \<Longrightarrow> data (database mc ! j) = board ! j"
  by (metis snakes_state_def snakes_state_length nth_map)

text \<open>Appending a fresh target to node \<open>f\<close> keeps the state.\<close>

lemma snakes_link_new:
  assumes st: "snakes_state mc" and f: "f < BOARD_SIZE" and b: "b < BOARD_SIZE"
    and nb: "b \<notin> set (map markov_node (frequency_list (database mc ! f)))"
  shows "\<exists>mc'. add_node_to_frequency_list mc f b True True = Inr (mc', EXIT_SUCCESS) \<and> snakes_state mc' \<and>
           database mc' = (database mc)[f := (database mc ! f)\<lparr>
             fre_list_size := Suc (length (frequency_list (database mc ! f))),
             frequency_list := frequency_list (database mc ! f) @ [once b]\<rparr>]"
proof -
  have c: "comp_contract mc" using st by (rule snakes_state_contract)
  have wf: "wf_chain mc" using st by (simp add: snakes_state_def)
  have l: "length (database mc) = BOARD_SIZE" using st by (rule snakes_state_length)
  note r = add_node_to_frequency_list_append [OF c wf _ _ nb, unfolded l, OF f b]
  have "wf_chain (mc\<lparr>database := (database mc)[f := (database mc ! f)\<lparr>
             fre_list_size := Suc (length (frequency_list (database mc ! f))),
             frequency_list := frequency_list (database mc ! f) @ [once b]\<rparr>]\<rparr>)"
    using wf_add_node_to_frequency_list [OF c wf, unfolded l, OF f b] r by blast
  with r st show ?thesis by (auto simp: snakes_state_def)
qed



lemma snakes_node_same:
  assumes "snakes_state mc" "f < BOARD_SIZE" "frequency_list (database mc ! f) = L"
  shows "(database mc)[f := (database mc ! f)\<lparr>fre_list_size := length L, frequency_list := L\<rparr>] = database mc"
proof -
  have "table_ok (length (database mc)) (database mc ! f)"
    using assms(1,2) wf_chain_table [of mc f] by (simp add: snakes_state_def snakes_state_length)
  then have "fre_list_size (database mc ! f) = length L" using assms(3) by (simp add: table_ok_def)
  then have "(database mc ! f)\<lparr>fre_list_size := length L, frequency_list := L\<rparr> = database mc ! f"
    using assms(3) by (cases "database mc ! f") simp
  then show ?thesis by simp
qed

subsection \<open>The dice loop\<close>

text \<open>Run from roll \<open>j\<close> on a cell without jump whose table holds the rolls before
  \<open>j\<close>, the dice loop appends the cells \<open>j\<close> to six ahead that are on the board,
  each with count 1, and touches no other node.\<close>

lemma dice_loop_board:
  assumes "snakes_state mc" "f < BOARD_SIZE" "1 \<le> j" "j \<le> DICE_MAX + 1"
    and "frequency_list (database mc ! f) = map once [Suc f..<min (f + nat j) BOARD_SIZE]"
  shows "\<exists>mc' a'. dice_loop mc board f j (\<lambda>_. True) a = Inr (mc', a', None) \<and> snakes_state mc' \<and>
           database mc' = (database mc)[f := (database mc ! f)\<lparr>
             fre_list_size := length [Suc f..<min (f + 7) BOARD_SIZE],
             frequency_list := map once [Suc f..<min (f + 7) BOARD_SIZE]\<rparr>]"
  using assms
proof (induction "nat (DICE_MAX + 1 - j)" arbitrary: mc j a)
  case 0
  then have j: "j = 7" by (simp add: DICE_MAX_def)
  then have "dice_loop mc board f j (\<lambda>_. True) a = Inr (mc, a, None)"
    by (subst dice_loop.simps) (simp add: DICE_MAX_def)
  moreover have "min (f + nat j) BOARD_SIZE = min (f + 7) BOARD_SIZE" using j by simp
  ultimately show ?case
    using snakes_node_same [OF "0.prems"(1,2)] "0.prems"(1,5) by (metis length_map)
next
  case (Suc n)
  note st = Suc.prems(1) and f = Suc.prems(2)
  have j6: "j \<le> DICE_MAX" using Suc.hyps(2) by arith
  have num: "number (data (database mc ! f)) = int f + 1"
    using snakes_state_data [OF st f] f by simp
  show ?case
  proof (cases "int BOARD_SIZE \<le> int f + j")
    case True
    then have "dice_loop mc board f j (\<lambda>_. True) a = Inr (mc, a, None)"
      using j6 num Suc.prems(3) by (subst dice_loop.simps) (simp add: Let_def)
    moreover have "min (f + nat j) BOARD_SIZE = min (f + 7) BOARD_SIZE"
      using True j6 Suc.prems(3) by (simp add: DICE_MAX_def)
    moreover have "(database mc)[f := (database mc ! f)\<lparr>
             fre_list_size := length [Suc f..<min (f + 7) BOARD_SIZE],
             frequency_list := map once [Suc f..<min (f + 7) BOARD_SIZE]\<rparr>] = database mc"
      using snakes_node_same [OF st f, of "map once [Suc f..<min (f + 7) BOARD_SIZE]"] Suc.prems(5) calculation(2)
      by simp
    ultimately show ?thesis using st by simp
  next
    case False
    let ?b = "f + nat j"
    have b: "?b < BOARD_SIZE" and bi: "nat (int f + j) = ?b" using False Suc.prems(3) by auto
    have nb: "?b \<notin> set (map markov_node (frequency_list (database mc ! f)))"
      using Suc.prems(5) by auto
    obtain mc1 where r: "add_node_to_frequency_list mc f ?b True True = Inr (mc1, EXIT_SUCCESS)"
      and st1: "snakes_state mc1"
      and db1: "database mc1 = (database mc)[f := (database mc ! f)\<lparr>
             fre_list_size := Suc (length (frequency_list (database mc ! f))),
             frequency_list := frequency_list (database mc ! f) @ [once ?b]\<rparr>]"
      using snakes_link_new [OF st f b nb] by blast
    have l: "length (database mc) = BOARD_SIZE" using st by (rule snakes_state_length)
    have g: "get_node_from_database mc (board ! ?b) = Some ?b"
      using get_node_board [OF _ _ b] st by (simp add: snakes_state_def)
    have step: "dice_loop mc board f j (\<lambda>_. True) a = dice_loop mc1 board f (j + 1) (\<lambda>_. True) (a + 2)"
      using j6 num False Suc.prems(3) b g r by (subst dice_loop.simps) (simp add: Let_def bi)
    have "frequency_list (database mc1 ! f) = map once [Suc f..<min (f + nat (j + 1)) BOARD_SIZE]"
    proof -
      have "min (f + nat (j + 1)) BOARD_SIZE = Suc ?b" and "min (f + nat j) BOARD_SIZE = ?b"
        using b Suc.prems(3) by (simp_all add: nat_add_distrib)
      then show ?thesis using db1 l f Suc.prems(5) Suc.prems(3) by simp
    qed
    moreover have "n = nat (DICE_MAX + 1 - (j + 1))" using Suc.hyps(2) by arith
    moreover have "1 \<le> j + 1" "j + 1 \<le> DICE_MAX + 1" using Suc.prems(3) j6 by simp_all
    ultimately obtain mc' a' where
      "dice_loop mc1 board f (j + 1) (\<lambda>_. True) (a + 2) = Inr (mc', a', None)" "snakes_state mc'"
      "database mc' = (database mc1)[f := (database mc1 ! f)\<lparr>
             fre_list_size := length [Suc f..<min (f + 7) BOARD_SIZE],
             frequency_list := map once [Suc f..<min (f + 7) BOARD_SIZE]\<rparr>]"
      using Suc.hyps(1) [of "j + 1" mc1 "a + 2"] st1 f by blast
    then show ?thesis using step db1 l f by auto
  qed
qed

subsection \<open>The link loop\<close>

lemma board_targets_jump:
  "map_of transitions (int i + 1) = Some t \<Longrightarrow> board_targets i = [nat t - 1] \<and> nat t - 1 < BOARD_SIZE"
proof -
  assume m: "map_of transitions (int i + 1) = Some t"
  then have "1 \<le> t" "t \<le> int BOARD_SIZE" using board_cell_jump [of "int i + 1" t] by simp_all
  then have "nat t - 1 < BOARD_SIZE" by (simp add: BOARD_SIZE_def)
  with m show ?thesis by (simp add: board_targets_def)
qed

lemma board_targets_plain:
  "map_of transitions (int i + 1) = None \<Longrightarrow> board_targets i = [Suc i..<min (i + 7) BOARD_SIZE]"
  by (simp add: board_targets_def)

lemma snakes_board_node:
  assumes "snakes_state mc" "i < BOARD_SIZE"
  shows "(database mc ! i)\<lparr>fre_list_size := length (board_targets i),
            frequency_list := map once (board_targets i)\<rparr> = board_node i"
  using snakes_state_data [OF assms] by (cases "database mc ! i") (simp add: board_node_def)

text \<open>One pass of the link loop on cell \<open>i + 1\<close> gives its node the table of the
  game.\<close>

lemma link_loop_step:
  assumes st: "snakes_state mc" and i: "i < BOARD_SIZE" and e: "frequency_list (database mc ! i) = []"
  shows "\<exists>mc1 a1. link_loop mc board (board ! i # cs) (\<lambda>_. True) a = link_loop mc1 board cs (\<lambda>_. True) a1 \<and>
           snakes_state mc1 \<and> database mc1 = (database mc)[i := board_node i]"
proof -
  have g: "get_node_from_database mc (board ! i) = Some i"
    using get_node_board [OF _ _ i] st by (simp add: snakes_state_def)
  have bi: "board ! i = board_cell (int i + 1)" using i by (rule board_nth)
  show ?thesis
  proof (cases "map_of transitions (int i + 1)")
    case (Some t)
    note jump = board_cell_jump [OF Some] and tg = board_targets_jump [OF Some]
    let ?b = "nat t - 1"
    have b: "?b < BOARD_SIZE" and bt: "nat (t - 1) = ?b" using tg jump by auto
    have gb: "get_node_from_database mc (board ! ?b) = Some ?b"
      using get_node_board [OF _ _ b] st by (simp add: snakes_state_def)
    obtain mc1 where r: "add_node_to_frequency_list mc i ?b True True = Inr (mc1, EXIT_SUCCESS)"
      and st1: "snakes_state mc1"
      and db1: "database mc1 = (database mc)[i := (database mc ! i)\<lparr>fre_list_size := 1,
                  frequency_list := [once ?b]\<rparr>]"
      using snakes_link_new [OF st i b] e by auto
    have "link_loop mc board (board ! i # cs) (\<lambda>_. True) a = link_loop mc1 board cs (\<lambda>_. True) (a + 2)"
      using g jump b gb r bt by (simp add: bi Let_def)
    moreover have "database mc1 = (database mc)[i := board_node i]"
      using db1 snakes_board_node [OF st i] tg by simp
    ultimately show ?thesis using st1 by blast
  next
    case None
    note plain = board_cell_plain [OF None] and tg = board_targets_plain [OF None]
    have fl1: "frequency_list (database mc ! i) = map once [Suc i..<min (i + nat 1) BOARD_SIZE]"
      using e by simp
    have d1: "(1::int) \<le> DICE_MAX + 1" by (simp add: DICE_MAX_def)
    obtain mc1 a1 where d: "dice_loop mc board i 1 (\<lambda>_. True) a = Inr (mc1, a1, None)"
      and st1: "snakes_state mc1"
      and db1: "database mc1 = (database mc)[i := (database mc ! i)\<lparr>
             fre_list_size := length [Suc i..<min (i + 7) BOARD_SIZE],
             frequency_list := map once [Suc i..<min (i + 7) BOARD_SIZE]\<rparr>]"
      using dice_loop_board [OF st i order.refl d1 fl1, of a] by blast
    have "link_loop mc board (board ! i # cs) (\<lambda>_. True) a = link_loop mc1 board cs (\<lambda>_. True) a1"
      using g plain d by (simp add: bi)
    moreover have "database mc1 = (database mc)[i := board_node i]"
      using db1 snakes_board_node [OF st i] tg by simp
    ultimately show ?thesis using st1 by blast
  qed
qed

lemma link_loop_board:
  "snakes_state mc \<Longrightarrow> cs = drop i board \<Longrightarrow>
   (\<forall>j. i \<le> j \<longrightarrow> j < BOARD_SIZE \<longrightarrow> frequency_list (database mc ! j) = []) \<Longrightarrow>
   (\<forall>j < i. database mc ! j = board_node j) \<Longrightarrow>
   \<exists>mc' a'. link_loop mc board cs (\<lambda>_. True) a = Inr (mc', a', EXIT_SUCCESS) \<and> snakes_state mc' \<and>
     database mc' = map board_node [0..<BOARD_SIZE]"
proof (induction cs arbitrary: i mc a)
  case Nil
  have l: "length (database mc) = BOARD_SIZE" using Nil.prems(1) by (rule snakes_state_length)
  have "BOARD_SIZE \<le> i" using Nil.prems(2) by (metis board_length drop_eq_Nil)
  then have "database mc = map board_node [0..<BOARD_SIZE]"
    using Nil.prems(4) l by (intro nth_equalityI) auto
  then show ?case using Nil.prems(1) by simp
next
  case (Cons c cs)
  have i: "i < BOARD_SIZE" using Cons.prems(2) by (metis board_length drop_eq_Nil list.distinct(1) not_le)
  have "c # cs = board ! i # drop (Suc i) board"
    using Cons.prems(2) Cons_nth_drop_Suc [of i board] i by simp
  then have ccs: "c = board ! i" "cs = drop (Suc i) board" by simp_all
  have l: "length (database mc) = BOARD_SIZE" using Cons.prems(1) by (rule snakes_state_length)
  obtain mc1 a1 where r: "link_loop mc board (c # cs) (\<lambda>_. True) a = link_loop mc1 board cs (\<lambda>_. True) a1"
    and st1: "snakes_state mc1" and db1: "database mc1 = (database mc)[i := board_node i]"
    using link_loop_step [OF Cons.prems(1) i] Cons.prems(3) i ccs(1) by blast
  have "\<forall>j. Suc i \<le> j \<longrightarrow> j < BOARD_SIZE \<longrightarrow> frequency_list (database mc1 ! j) = []"
    using Cons.prems(3) db1 l by auto
  moreover have "\<forall>j < Suc i. database mc1 ! j = board_node j"
    using Cons.prems(4) db1 l i by (auto simp: less_Suc_eq nth_list_update)
  ultimately show ?case using Cons.IH [OF st1 ccs(2)] r by simp
qed

subsection \<open>The filled chain\<close>

lemma snakes_empty_nodes_state:
  assumes "snakes_create_chain True True = Some mc"
  shows "snakes_state (mc\<lparr>database := map (\<lambda>c. \<lparr>data = c, frequency_list = [], fre_list_size = 0\<rparr>) board\<rparr>)"
proof -
  have mc: "comp_func mc = snakes_comp_func \<and> copy_func mc = snakes_copy_func \<and>
      is_last mc = snakes_check_is_last \<and> print_func mc = snakes_print_func"
    using assms by (auto simp: snakes_create_chain_def split: if_splits)
  have "number (board ! i) = number (board ! j) \<Longrightarrow> i < BOARD_SIZE \<Longrightarrow> j < BOARD_SIZE \<Longrightarrow> i = j" for i j
    by simp
  then show ?thesis
    using mc by (auto simp: snakes_state_def wf_chain_def db_unique_def table_ok_def comp_def)
qed

lemma fill_database_snakes_board:
  assumes c: "snakes_create_chain True True = Some mc"
  shows "fill_database_snakes mc (\<lambda>_. True) = Inr (board_chain, EXIT_SUCCESS) \<and> snakes_state board_chain"
proof -
  let ?mc1 = "mc\<lparr>database := map (\<lambda>c. \<lparr>data = c, frequency_list = [], fre_list_size = 0\<rparr>) board\<rparr>"
  have mc: "mc = \<lparr>database = [], comp_func = snakes_comp_func, copy_func = snakes_copy_func,
      is_last = snakes_check_is_last, print_func = snakes_print_func\<rparr>"
    using c by (simp add: snakes_create_chain_def split: if_splits)
  have add: "add_cells mc board (\<lambda>_. True) BOARD_SIZE = (?mc1, BOARD_SIZE + 3 * BOARD_SIZE)"
    using add_cells_fresh [of mc board] mc distinct_board_numbers by simp
  have st: "snakes_state ?mc1" using c by (rule snakes_empty_nodes_state)
  obtain mc' a' where l: "link_loop ?mc1 board board (\<lambda>_. True) (BOARD_SIZE + 3 * BOARD_SIZE) =
        Inr (mc', a', EXIT_SUCCESS)"
    and st': "snakes_state mc'" and db: "database mc' = map board_node [0..<BOARD_SIZE]"
    using link_loop_board [OF st, of board 0] by fastforce
  have "mc' = board_chain"
    using st' db by (cases mc') (simp add: snakes_state_def board_chain_def)
  then show ?thesis using add l st' create_board_ok [of "\<lambda>_. True"] by (simp add: fill_database_snakes_def)
qed

lemma board_chain_state: "snakes_state board_chain"
  using fill_database_snakes_board [of "the (snakes_create_chain True True)"]
  by (simp add: snakes_create_chain_def)

lemma board_chain_nth [markov_eval]: "i < BOARD_SIZE \<Longrightarrow> database board_chain ! i = board_node i"
  by (simp add: board_chain_def)

lemma board_chain_length [simp]: "length (database board_chain) = BOARD_SIZE"
  by (simp add: board_chain_def)

lemma board_chain_fields [simp]:
  "is_last board_chain = snakes_check_is_last" "comp_func board_chain = snakes_comp_func"
  by (simp_all add: board_chain_def)

subsection \<open>The walks\<close>

lemma board_targets_bound: "t \<in> set (board_targets i) \<Longrightarrow> t < BOARD_SIZE"
  by (cases "map_of transitions (int i + 1)") (auto dest: board_targets_jump simp: board_targets_def)

lemma board_targets_size: "length (board_targets i) \<le> 6"
  by (cases "map_of transitions (int i + 1)") (auto simp: board_targets_def)

lemma board_targets_ne: "Suc i < BOARD_SIZE \<Longrightarrow> board_targets i \<noteq> []"
  by (cases "map_of transitions (int i + 1)") (auto simp: board_targets_def)

lemma map_markov_node_once [simp]: "map markov_node (map once ts) = ts"
  by (induction ts) simp_all

lemma sum_frequency_once [simp]: "sum_list (map frequency (map once ts)) = length ts"
  by (induction ts) simp_all

lemma board_node_facts [simp]:
  "data (board_node i) = board ! i"
  "map markov_node (frequency_list (board_node i)) = board_targets i"
  "sum_list (map frequency (frequency_list (board_node i))) = length (board_targets i)"
  "frequency_list (board_node i) = [] \<longleftrightarrow> board_targets i = []"
  unfolding board_node_def by (simp_all only: MarkovNode.select_convs map_markov_node_once
      sum_frequency_once map_is_Nil_conv)

lemma board_chain_no_dead_ends: "no_dead_ends board_chain"
proof -
  have "int (length (board_targets i)) \<le> INT_MAX" for i
    using board_targets_size [of i] by simp
  moreover have "board_targets i \<noteq> []" if "i < BOARD_SIZE" "int i + 1 \<noteq> int BOARD_SIZE" for i
    using that board_targets_ne [of i] by simp
  ultimately show ?thesis
    by (auto simp: no_dead_ends_def markov_eval snakes_check_is_last_def)
qed

lemma chain_path_board_path:
  "a < BOARD_SIZE \<Longrightarrow> chain_path board_chain (a # ns) \<Longrightarrow>
   board_path (a # ns) \<and> (\<forall>n \<in> set (a # ns). n < BOARD_SIZE)"
proof (induction ns arbitrary: a)
  case (Cons b ns)
  then have "b \<in> set (board_targets a)" by (simp add: markov_eval)
  moreover from this have "b < BOARD_SIZE" by (rule board_targets_bound)
  ultimately show ?case using Cons by simp
qed simp

lemma last_Render_renders: "out \<noteq> [] \<Longrightarrow> last out = Render t \<Longrightarrow> t \<in> set (renders out)"
  by (induction out rule: renders.induct) (auto split: if_splits)

lemma board_walk:
  "\<exists>out k'. generate_random_sequence board_chain (Some 0) MAX_GENERATION_LENGTH rs k = Some (Inr (out, k')) \<and>
     legal_walk out"
proof -
  have wf: "wf_chain board_chain" using board_chain_state by (simp add: snakes_state_def)
  have z: "0 < length (database board_chain)" by (simp add: BOARD_SIZE_def)
  have ne: "frequency_list (database board_chain ! 0) \<noteq> []"
    using board_targets_ne [of 0] by (simp add: markov_eval BOARD_SIZE_def)
  obtain out' k' where w: "walk_loop board_chain rs 0 (nat (MAX_GENERATION_LENGTH - 1)) k = Inr (out', k')"
    using walk_loop_total [OF wf board_chain_no_dead_ends z ne] by blast
  have "0 < BOARD_SIZE" by (simp add: BOARD_SIZE_def)
  from chain_path_board_path [OF this walk_loop_path [OF w]]
  have p: "board_path (0 # renders out') \<and> (\<forall>n \<in> set (0 # renders out'). n < BOARD_SIZE)" .
  have m: "nat (MAX_GENERATION_LENGTH - 1) = 59" "nat MAX_GENERATION_LENGTH = 60"
    by (simp_all add: MAX_GENERATION_LENGTH_def)
  have "last (Render 0 # Space # out') = Render (BOARD_SIZE - 1) \<or>
        (last (Render 0 # Space # out') = Space \<and> length (renders out') = 59)"
  proof -
    consider "out' \<noteq> []" "\<exists>t. last out' = Render t \<and> is_last board_chain (data (database board_chain ! t))"
      | "out' \<noteq> []" "last out' = Space" "length (renders out') = 59"
      using walk_loop_shape [OF w] m by auto
    then show ?thesis
    proof cases
      case 1
      then obtain t where t: "last out' = Render t" "is_last board_chain (data (database board_chain ! t))"
        by blast
      have "t < BOARD_SIZE" using p last_Render_renders [OF 1(1) t(1)] by auto
      then have "t = BOARD_SIZE - 1" using t(2) by (simp add: markov_eval snakes_check_is_last_def)
      with 1 t show ?thesis by simp
    qed simp
  qed
  then have "legal_walk (Render 0 # Space # out')"
    using p walk_loop_shape [OF w] m by (auto simp: legal_walk_def)
  then show ?thesis using w by (simp add: generate_random_sequence_def)
qed

lemma snakes_loop_board:
  "\<exists>ws k'. snakes_loop board_chain rs k i n = Some (Inr (ws, k')) \<and> map fst ws = [i + 1..n] \<and>
     (\<forall>w \<in> set ws. legal_walk (snd w))"
proof (induction "nat (n - i)" arbitrary: i k)
  case 0
  then have "snakes_loop board_chain rs k i n = Some (Inr ([], k))" by (simp add: snakes_loop.simps)
  with 0 show ?case by simp
next
  case (Suc m)
  obtain out k1 where g: "generate_random_sequence board_chain (Some 0) MAX_GENERATION_LENGTH rs k = Some (Inr (out, k1))"
    and lw: "legal_walk out" using board_walk by blast
  obtain ws k' where r: "snakes_loop board_chain rs k1 (i + 1) n = Some (Inr (ws, k'))"
    and f: "map fst ws = [i + 1 + 1..n]" and a: "\<forall>w \<in> set ws. legal_walk (snd w)"
    using Suc.hyps(1) [of "i + 1" k1] Suc.hyps(2) by fastforce
  have "database board_chain \<noteq> []" by (simp add: board_chain_def BOARD_SIZE_def)
  then have "snakes_loop board_chain rs k i n = Some (Inr ((i + 1, out) # ws, k'))"
    using Suc.hyps(2) g r by (subst snakes_loop.simps) simp
  moreover have "[i + 1..n] = (i + 1) # [i + 1 + 1..n]" using Suc.hyps(2) by (simp add: upto_rec1)
  ultimately show ?case using f a lw by simp
qed

subsection \<open>A failed insertion\<close>

text \<open>Cells whose number is not \<open>x\<close> never bring \<open>x\<close> into the database.\<close>

lemma add_cells_avoid:
  "copy_func mc = snakes_copy_func \<Longrightarrow> (\<forall>n \<in> set (database mc). number (data n) \<noteq> x) \<Longrightarrow>
   (\<forall>c \<in> set cs. number c \<noteq> x) \<Longrightarrow>
   (\<forall>n \<in> set (database (fst (add_cells mc cs al a))). number (data n) \<noteq> x) \<and>
   comp_func (fst (add_cells mc cs al a)) = comp_func mc"
proof (induction cs arbitrary: mc a)
  case (Cons c cs)
  obtain mc1 r where a1: "add_to_database mc c (al a) (al (a + 1)) (al (a + 2)) = (mc1, r)" by fastforce
  have fr: "comp_func mc1 = comp_func mc \<and> copy_func mc1 = copy_func mc"
    using add_to_database_frame [OF a1] by simp
  have "\<forall>n \<in> set (database mc1). number (data n) \<noteq> x"
  proof (cases rule: add_to_database_cases [of mc c "al a" "al (a + 1)" "al (a + 2)"])
    case new
    then show ?thesis using a1 Cons.prems by auto
  qed (use a1 Cons.prems in auto)
  then show ?case using Cons.IH [of mc1 "a + 3"] Cons.prems fr a1 by simp
qed simp

lemma fill_database_snakes_first_add_fails:
  assumes al: "\<forall>i < BOARD_SIZE. al i" and nf: "\<not> al BOARD_SIZE"
    and c: "snakes_create_chain True True = Some mc"
  shows "fill_database_snakes mc al = Inl Null_dereference"
proof -
  have mc: "database mc = [] \<and> comp_func mc = snakes_comp_func \<and> copy_func mc = snakes_copy_func"
    using c by (auto simp: snakes_create_chain_def split: if_splits)
  have b: "board = board ! 0 # drop 1 board"
    by (simp add: BOARD_SIZE_def Cons_nth_drop_Suc)
  have "get_node_from_database mc (board ! 0) = None" using mc by (simp add: get_node_from_database_def)
  then have a0: "add_to_database mc (board ! 0) (al BOARD_SIZE) (al (BOARD_SIZE + 1)) (al (BOARD_SIZE + 2)) = (mc, None)"
    using nf by (simp add: add_to_database_alloc_fail)
  have "\<forall>c \<in> set (drop 1 board). number c \<noteq> 1"
  proof
    fix c assume "c \<in> set (drop 1 board)"
    then obtain k where "k < BOARD_SIZE - 1" "c = board ! Suc k"
      by (auto simp: in_set_conv_nth)
    then show "number c \<noteq> 1" by simp
  qed
  then have av: "(\<forall>n \<in> set (database (fst (add_cells mc (drop 1 board) al (BOARD_SIZE + 3)))). number (data n) \<noteq> 1) \<and>
      comp_func (fst (add_cells mc (drop 1 board) al (BOARD_SIZE + 3))) = snakes_comp_func"
    using add_cells_avoid [of mc 1 "drop 1 board" al "BOARD_SIZE + 3"] mc by simp
  obtain mc1 a1 where ac: "add_cells mc board al BOARD_SIZE = (mc1, a1)" by fastforce
  then have "mc1 = fst (add_cells mc (drop 1 board) al (BOARD_SIZE + 3))"
    using a0 by (subst (asm) b) simp
  then have "get_node_from_database mc1 (board ! 0) = None"
    using av by (auto simp: get_node_from_database_None BOARD_SIZE_def dest!: nth_mem)
  then have "link_loop mc1 board board al a1 = Inl Null_dereference" by (subst b) simp
  then show ?thesis using ac create_board_ok [OF al] by (simp add: fill_database_snakes_def)
qed

lemma add_cells_cong:
  "\<forall>i. a \<le> i \<longrightarrow> i < a + 3 * length cs \<longrightarrow> al i = al' i \<Longrightarrow> add_cells mc cs al a = add_cells mc cs al' a"
proof (induction cs arbitrary: mc a)
  case (Cons c cs)
  have "al a = al' a" "al (a + 1) = al' (a + 1)" "al (a + 2) = al' (a + 2)" using Cons.prems by simp_all
  moreover have "\<forall>i. a + 3 \<le> i \<longrightarrow> i < a + 3 + 3 * length cs \<longrightarrow> al i = al' i" using Cons.prems by simp
  ultimately show ?case using Cons.IH by simp
qed simp

text \<open>Whatever the outcomes of the link allocations: the dice loop and the link loop
  only touch the table of the current cell, which is consistent when they reach it,
  so neither reads out of range nor meets a missing node.\<close>

lemma dice_loop_no_ub:
  assumes "comp_func mc = snakes_comp_func" "map data (database mc) = board" "f < BOARD_SIZE"
    and "fre_list_size (database mc ! f) = length (frequency_list (database mc ! f))" "1 \<le> j"
  shows "\<exists>mc' a' r. dice_loop mc board f j al a = Inr (mc', a', r) \<and>
           comp_func mc' = comp_func mc \<and> map data (database mc') = board \<and>
           (\<forall>k. k \<noteq> f \<longrightarrow> database mc' ! k = database mc ! k)"
  using assms
proof (induction "nat (DICE_MAX + 1 - j)" arbitrary: mc j a)
  case 0
  then have "DICE_MAX < j" by (simp add: DICE_MAX_def)
  then show ?case using "0.prems" by (subst dice_loop.simps) simp
next
  case (Suc m)
  have l: "length (database mc) = BOARD_SIZE" using Suc.prems(2) by (metis board_length length_map)
  have d: "data (database mc ! f) = board ! f" using Suc.prems(2,3) l by (metis nth_map)
  have j: "\<not> DICE_MAX < j" using Suc.hyps(2) by simp
  show ?case
  proof (cases "int f + j < int BOARD_SIZE")
    case False
    then show ?thesis using j d Suc.prems(2,3) by (subst dice_loop.simps) simp
  next
    case True
    let ?t = "f + nat j"
    have t: "?t < BOARD_SIZE" "nat (int f + j) = ?t" using True Suc.prems(5) by simp_all
    have g: "get_node_from_database mc (board ! ?t) = Some ?t"
      using get_node_board [OF Suc.prems(1,2) t(1)] .
    obtain mc1 st where an: "add_node_to_frequency_list mc f ?t (al a) (al (a + 1)) = Inr (mc1, st)"
      and c1: "st = EXIT_SUCCESS \<longrightarrow> fre_list_size (database mc1 ! f) = length (frequency_list (database mc1 ! f))"
      using add_node_to_frequency_list_consistent [OF _ Suc.prems(4), of ?t "al a" "al (a + 1)"]
        Suc.prems(3) l by auto
    have cf1: "comp_func mc1 = comp_func mc" using add_node_to_frequency_list_keeps [OF an] by simp
    have m1: "map data (database mc1) = board" and mc1k: "\<forall>k. k \<noteq> f \<longrightarrow> database mc1 ! k = database mc ! k"
      using add_node_to_frequency_list_keeps [OF an] Suc.prems(2) by simp_all
    have unf: "dice_loop mc board f j al a =
        (case add_node_to_frequency_list mc f ?t (al a) (al (a + 1)) of
           Inl e \<Rightarrow> Inl e
         | Inr (mc', EXIT_FAILURE) \<Rightarrow> Inr (mc', a + 2, Some EXIT_FAILURE)
         | Inr (mc', EXIT_SUCCESS) \<Rightarrow> dice_loop mc' board f (j + 1) al (a + 2))"
      using j d t g True Suc.prems(3,5) by (subst dice_loop.simps) (simp add: Let_def)
    show ?thesis
    proof (cases st)
      case EXIT_FAILURE
      then show ?thesis using unf an m1 mc1k cf1 by auto
    next
      case EXIT_SUCCESS
      have "\<exists>mc' a' r. dice_loop mc1 board f (j + 1) al (a + 2) = Inr (mc', a', r) \<and>
           comp_func mc' = comp_func mc1 \<and> map data (database mc') = board \<and>
           (\<forall>k. k \<noteq> f \<longrightarrow> database mc' ! k = database mc1 ! k)"
        using Suc.hyps(1) [of "j + 1" mc1 "a + 2"] Suc.hyps(2) Suc.prems(1,3,5) c1 EXIT_SUCCESS m1 cf1 by simp
      then show ?thesis using unf an EXIT_SUCCESS mc1k cf1 by auto
    qed
  qed
qed
lemma link_loop_no_ub:
  assumes "comp_func mc = snakes_comp_func" "map data (database mc) = board" "i \<le> BOARD_SIZE"
    and "\<forall>k. i \<le> k \<and> k < BOARD_SIZE \<longrightarrow> frequency_list (database mc ! k) = [] \<and> fre_list_size (database mc ! k) = 0"
  shows "\<exists>mc' a' st. link_loop mc board (drop i board) al a = Inr (mc', a', st)"
  using assms
proof (induction "BOARD_SIZE - i" arbitrary: mc i a)
  case 0
  then show ?case by simp
next
  case (Suc m)
  have i: "i < BOARD_SIZE" using Suc.hyps(2) by simp
  have l: "length (database mc) = BOARD_SIZE" using Suc.prems(2) by (metis board_length length_map)
  have dr: "drop i board = board ! i # drop (Suc i) board" using i by (simp add: Cons_nth_drop_Suc)
  have g: "get_node_from_database mc (board ! i) = Some i" using get_node_board [OF Suc.prems(1,2) i] .
  have e: "frequency_list (database mc ! i) = [] \<and> fre_list_size (database mc ! i) = 0" using Suc.prems(4) i by simp
  have rest: "\<exists>mc' a' st. link_loop mc1 board (drop (Suc i) board) al a1 = Inr (mc', a', st)"
    if "comp_func mc1 = snakes_comp_func" "map data (database mc1) = board"
      "\<forall>k. k \<noteq> i \<longrightarrow> database mc1 ! k = database mc ! k" for mc1 a1
    using Suc.hyps(1) [of "Suc i" mc1 a1] Suc.hyps(2) that i Suc.prems(4) by simp
  show ?case
  proof (cases "map_of transitions (int i + 1)")
    case (Some t)
    have bi: "board ! i = board_cell (int i + 1)" using i by (rule board_nth)
    note jmp = board_cell_jump [OF Some]
    let ?t = "nat (t - 1)"
    have t: "?t < BOARD_SIZE" "\<not> t - 1 < 0" using jmp by auto
    have gt: "get_node_from_database mc (board ! ?t) = Some ?t" using get_node_board [OF Suc.prems(1,2) t(1)] .
    obtain mc1 st where an: "add_node_to_frequency_list mc i ?t (al a) (al (a + 1)) = Inr (mc1, st)"
      using add_node_to_frequency_list_consistent [of i mc ?t "al a" "al (a + 1)"] e i l by auto
    note k = add_node_to_frequency_list_keeps [OF an]
    have "link_loop mc board (drop i board) al a = link_loop mc1 board (drop (Suc i) board) al (a + 2)"
      using g jmp t gt an bi dr by (simp add: Let_def)
    then show ?thesis using rest [of mc1 "a + 2"] k Suc.prems(1,2) by simp
  next
    case None
    have bi: "board ! i = board_cell (int i + 1)" using i by (rule board_nth)
    note pl = board_cell_plain [OF None]
    obtain mc1 a1 r where dl: "dice_loop mc board i 1 al a = Inr (mc1, a1, r)"
      and k: "comp_func mc1 = comp_func mc" "map data (database mc1) = board"
        "\<forall>k. k \<noteq> i \<longrightarrow> database mc1 ! k = database mc ! k"
      using dice_loop_no_ub [OF Suc.prems(1,2) i, of 1 al a] e by auto
    have "link_loop mc board (drop i board) al a =
        (case r of Some st \<Rightarrow> Inr (mc1, a1, st) | None \<Rightarrow> link_loop mc1 board (drop (Suc i) board) al a1)"
      using g pl bi dr dl by (simp split: option.split)
    then show ?thesis using rest [of mc1 a1] k Suc.prems(1) by (cases r) auto
  qed
qed
text \<open>After the board and the hundred nodes are allocated, filling is the link loop on
  the chain of the hundred empty nodes.\<close>

lemma fill_database_snakes_nodes:
  assumes al: "\<forall>i < 400. al i" and c: "snakes_create_chain True True = Some mc"
  shows "fill_database_snakes mc al =
    (case link_loop (mc\<lparr>database := map (\<lambda>c. \<lparr>data = c, frequency_list = [], fre_list_size = 0\<rparr>) board\<rparr>)
            board board al 400 of
       Inl e \<Rightarrow> Inl e
     | Inr (mc', a', st) \<Rightarrow> Inr (mc', st))"
proof -
  let ?mc1 = "mc\<lparr>database := map (\<lambda>c. \<lparr>data = c, frequency_list = [], fre_list_size = 0\<rparr>) board\<rparr>"
  have mc: "mc = \<lparr>database = [], comp_func = snakes_comp_func, copy_func = snakes_copy_func,
      is_last = snakes_check_is_last, print_func = snakes_print_func\<rparr>"
    using c by (simp add: snakes_create_chain_def split: if_splits)
  have cb: "create_board al = Inr (Some board)" using al by (intro create_board_ok) (simp add: BOARD_SIZE_def)
  have "add_cells mc board al BOARD_SIZE = add_cells mc board (\<lambda>_. True) BOARD_SIZE"
    using al by (intro add_cells_cong) (simp add: BOARD_SIZE_def)
  also have "\<dots> = (?mc1, 400)"
    using add_cells_fresh [of mc board] mc distinct_board_numbers by (simp add: BOARD_SIZE_def)
  finally show ?thesis using cb by (simp add: fill_database_snakes_def)
qed

lemma fill_database_snakes_no_ub:
  assumes al: "\<forall>i < 400. al i" and c: "snakes_create_chain True True = Some mc"
  shows "\<exists>mc' st. fill_database_snakes mc al = Inr (mc', st)"
proof -
  let ?mc1 = "mc\<lparr>database := map (\<lambda>c. \<lparr>data = c, frequency_list = [], fre_list_size = 0\<rparr>) board\<rparr>"
  have st: "snakes_state ?mc1" using c by (rule snakes_empty_nodes_state)
  have "\<exists>mc' a' st. link_loop ?mc1 board (drop 0 board) al 400 = Inr (mc', a', st)"
    using st by (intro link_loop_no_ub) (auto simp: snakes_state_def)
  then show ?thesis using fill_database_snakes_nodes [OF al c] by auto
qed
text \<open>The first link of \<open>fill_database_snakes\<close>, from cell 1 to cell 2 in the dice loop, with the
  allocations before it succeeding.\<close>

lemma fill_database_snakes_first_link:
  assumes al: "\<forall>i < 400. al i" and c: "snakes_create_chain True True = Some mc"
  defines "mc1 \<equiv> mc\<lparr>database := map (\<lambda>c. \<lparr>data = c, frequency_list = [], fre_list_size = 0\<rparr>) board\<rparr>"
  shows "\<not> al (400) \<Longrightarrow> fill_database_snakes mc al = Inr (mc1, EXIT_FAILURE)"
    and "al (400) \<Longrightarrow> \<not> al (401) \<Longrightarrow>
         fill_database_snakes mc al =
           Inr (mc1\<lparr>database := (database mc1)[0 := (database mc1 ! 0)\<lparr>fre_list_size := 1\<rparr>]\<rparr>, EXIT_FAILURE)"
proof -
  have st: "snakes_state mc1" unfolding mc1_def using c by (rule snakes_empty_nodes_state)
  have g0: "get_node_from_database mc1 (board ! 0) = Some 0"
    and g1: "get_node_from_database mc1 (board ! Suc 0) = Some 1"
    using get_node_board st by (simp_all add: snakes_state_def BOARD_SIZE_def)
  have b: "board = board ! 0 # drop 1 board" by (simp add: BOARD_SIZE_def Cons_nth_drop_Suc)
  have d0: "database mc1 ! 0 = \<lparr>data = board ! 0, frequency_list = [], fre_list_size = 0\<rparr>"
    by (simp add: mc1_def BOARD_SIZE_def)
  have ne: "snake_to (board ! 0) = EMPTY \<and> ladder_to (board ! 0) = EMPTY"
    using board_cell_plain [of 1] board_nth [of 0] by (simp add: BOARD_SIZE_def transitions_def)
  have n1: "nth_checked board 1 = Inr (board ! 1)" by (simp add: BOARD_SIZE_def)
  have dl: "dice_loop mc1 board 0 1 al (400) =
      (case add_node_to_frequency_list mc1 0 1 (al (400)) (al (401)) of
         Inl e \<Rightarrow> Inl e
       | Inr (mc', EXIT_FAILURE) \<Rightarrow> Inr (mc', 402, Some EXIT_FAILURE)
       | Inr (mc', EXIT_SUCCESS) \<Rightarrow> dice_loop mc' board 0 2 al (402))"
    by (subst dice_loop.simps) (auto simp: d0 n1 g1 DICE_MAX_def BOARD_SIZE_def split: sum.split status.split)
  have ll: "link_loop mc1 board board al (400) =
      (case dice_loop mc1 board 0 1 al (400) of
         Inl e \<Rightarrow> Inl e
       | Inr (mc', a', Some st) \<Rightarrow> Inr (mc', a', st)
       | Inr (mc', a', None) \<Rightarrow> link_loop mc' board (drop (Suc 0) board) al a')"
    using g0 ne by (subst (2) b) simp
  have fd: "fill_database_snakes mc al =
      (case link_loop mc1 board board al (400) of Inl e \<Rightarrow> Inl e | Inr (mc', a', st) \<Rightarrow> Inr (mc', st))"
    using fill_database_snakes_nodes [OF al c] by (simp add: mc1_def)
  have an: "add_node_to_frequency_list mc1 0 1 ok1 ok2 =
      (if \<not> ok1 then Inr (mc1, EXIT_FAILURE)
       else if \<not> ok2 then Inr (mc1\<lparr>database := (database mc1)[0 := (database mc1 ! 0)\<lparr>fre_list_size := 1\<rparr>]\<rparr>, EXIT_FAILURE)
       else Inr (mc1\<lparr>database := (database mc1)[0 := (database mc1 ! 0)\<lparr>fre_list_size := 1,
                frequency_list := [\<lparr>markov_node = 1, frequency = 1\<rparr>]\<rparr>]\<rparr>, EXIT_SUCCESS))" for ok1 ok2
    by (simp add: add_node_to_frequency_list_def d0 markov_eval)
  show "\<not> al (400) \<Longrightarrow> fill_database_snakes mc al = Inr (mc1, EXIT_FAILURE)"
    using fd ll dl an by simp
  show "al (400) \<Longrightarrow> \<not> al (401) \<Longrightarrow> fill_database_snakes mc al =
           Inr (mc1\<lparr>database := (database mc1)[0 := (database mc1 ! 0)\<lparr>fre_list_size := 1\<rparr>]\<rparr>, EXIT_FAILURE)"
    using fd ll dl an by simp
qed

subsection \<open>A walk that never reaches cell 100\<close>

lemmas board_step_defs = markov_eval board_node_def board_targets_def transitions_def BOARD_SIZE_def
  get_next_random_node_def get_random_number_def cycle_rand_def

lemma cycle_step_0: "get_next_random_node (database board_chain ! 0) cycle_rand 0 = Inr (Some 3, 1)"
  by (simp add: board_step_defs)

lemma cycle_step_3:
  "(k - 1) mod 3 = 0 \<Longrightarrow> 0 < k \<Longrightarrow> get_next_random_node (database board_chain ! 3) cycle_rand k = Inr (Some 9, Suc k)"
  by (simp add: board_step_defs)

lemma cycle_step_9:
  "(k - 1) mod 3 = 1 \<Longrightarrow> 0 < k \<Longrightarrow> get_next_random_node (database board_chain ! 9) cycle_rand k = Inr (Some 12, Suc k)"
  by (simp add: board_step_defs)

lemma cycle_step_12:
  "(k - 1) mod 3 = 2 \<Longrightarrow> 0 < k \<Longrightarrow> get_next_random_node (database board_chain ! 12) cycle_rand k = Inr (Some 3, Suc k)"
  by (simp add: board_step_defs)

lemma board_chain_not_last: "c < BOARD_SIZE - 1 \<Longrightarrow> \<not> is_last board_chain (data (database board_chain ! c))"
  by (simp add: markov_eval snakes_check_is_last_def)

lemma cycle_phase: "0 < k \<Longrightarrow> (k - 1) mod 3 = p \<Longrightarrow> (Suc k - 1) mod 3 = (if p = 2 then 0 else Suc p)"
  by (cases k) (auto simp: mod_Suc)

lemma cycle_walk:
  "0 < k \<Longrightarrow> c = 3 \<and> (k - 1) mod 3 = 0 \<or> c = 9 \<and> (k - 1) mod 3 = 1 \<or> c = 12 \<and> (k - 1) mod 3 = 2 \<Longrightarrow>
   \<exists>out. walk_loop board_chain cycle_rand c m k = Inr (out, k + m) \<and> length (renders out) = m \<and>
     set (renders out) \<subseteq> {3, 9, 12} \<and> (0 < m \<longrightarrow> last out = Space)"
proof (induction m arbitrary: c k)
  case (Suc m)
  obtain c' where g: "get_next_random_node (database board_chain ! c) cycle_rand k = Inr (Some c', Suc k)"
    and ph: "c' = 3 \<and> (Suc k - 1) mod 3 = 0 \<or> c' = 9 \<and> (Suc k - 1) mod 3 = 1 \<or> c' = 12 \<and> (Suc k - 1) mod 3 = 2"
  proof -
    from Suc.prems(2) consider "c = 3" "(k - 1) mod 3 = 0" | "c = 9" "(k - 1) mod 3 = 1"
      | "c = 12" "(k - 1) mod 3 = 2" by argo
    then show thesis
    proof cases
      case 1
      then show thesis using that [of 9] cycle_step_3 [OF 1(2) Suc.prems(1)] cycle_phase [OF Suc.prems(1) 1(2)] by simp
    next
      case 2
      then show thesis using that [of 12] cycle_step_9 [OF 2(2) Suc.prems(1)] cycle_phase [OF Suc.prems(1) 2(2)] by simp
    next
      case 3
      then show thesis using that [of 3] cycle_step_12 [OF 3(2) Suc.prems(1)] cycle_phase [OF Suc.prems(1) 3(2)] by simp
    qed
  qed
  have c': "c' \<in> {3, 9, 12}" using ph by blast
  then have nl: "\<not> is_last board_chain (data (database board_chain ! c'))"
    using board_chain_not_last [of c'] by (auto simp: BOARD_SIZE_def)
  obtain out where w: "walk_loop board_chain cycle_rand c' m (Suc k) = Inr (out, Suc k + m)"
    and l: "length (renders out) = m" and st: "set (renders out) \<subseteq> {3, 9, 12}"
    and la: "0 < m \<longrightarrow> last out = Space"
    using Suc.IH [of "Suc k" c'] ph by blast
  have "last (Render c' # Space # out) = Space" using la w by (cases m) auto
  then show ?case using g nl w l st c' by simp
qed simp

lemma cycle_generate:
  "\<exists>out k'. generate_random_sequence board_chain (Some 0) MAX_GENERATION_LENGTH cycle_rand 0 = Some (Inr (out, k')) \<and>
     length (renders out) = 60 \<and> set (renders out) \<subseteq> {0, 3, 9, 12} \<and> last out = Space"
proof -
  obtain out where w: "walk_loop board_chain cycle_rand 3 58 1 = Inr (out, 59)"
    and l: "length (renders out) = 58" and st: "set (renders out) \<subseteq> {3, 9, 12}" and la: "last out = Space"
    using cycle_walk [of 1 3 58] by auto
  have "walk_loop board_chain cycle_rand 0 (Suc 58) 0 = Inr (Render 3 # Space # out, 59)"
  proof -
    have "\<not> snakes_check_is_last (data (database board_chain ! 3))"
      using board_chain_not_last [of 3] by (simp add: BOARD_SIZE_def)
    moreover have "walk_loop board_chain cycle_rand 3 58 (Suc 0) = Inr (out, 59)" using w by simp
    ultimately show ?thesis by (subst walk_loop.simps(2)) (simp add: cycle_step_0)
  qed
  then have "walk_loop board_chain cycle_rand 0 (nat (MAX_GENERATION_LENGTH - 1)) 0 = Inr (Render 3 # Space # out, 59)"
    by (simp add: MAX_GENERATION_LENGTH_def)
  moreover have "out \<noteq> []" using l by auto
  moreover have "set (renders (Render 0 # Space # Render 3 # Space # out)) \<subseteq> {0, 3, 9, 12}" using st by auto
  ultimately show ?thesis
    using l la by (simp add: generate_random_sequence_def)
qed

subsection \<open>Properties of the snakes client\<close>

text \<open>C20: with every allocation succeeding, \<open>fill_database_snakes\<close> on a fresh
  chain returns \<open>EXIT_SUCCESS\<close> with exactly the chain of the game: node \<open>j\<close> holds
  cell \<open>j + 1\<close>, and its table lists, each once and in order, the destination of its
  ladder or snake, or else the cells one to six ahead that are on the board; the
  chain is well formed.\<close>

theorem fill_database_snakes_refines:
  "snakes_create_chain True True = Some mc \<Longrightarrow>
   fill_database_snakes mc (\<lambda>_. True) = Inr (board_chain, EXIT_SUCCESS) \<and> wf_chain board_chain"
  using fill_database_snakes_board [of mc] by (simp add: snakes_state_def)

text \<open>C21: the whole program with every allocation succeeding, for every seed and
  generator: it exits with \<open>EXIT_SUCCESS\<close> after printing the requested number of
  walks, numbered from 1, and every walk starts at cell 1, follows the moves of the
  game (a roll of one to six, or the ladder or snake of the cell), prints at most
  60 cells and ends on cell 100 or is cut at 60 cells.\<close>

theorem snakes_main_walks:
  "\<exists>ws. snakes_main ARGS seed walks_num srand (\<lambda>_. True) = Some (Inr (EXIT_SUCCESS, ws)) \<and>
     map fst ws = [1..walks_num] \<and> (\<forall>w \<in> set ws. legal_walk (snd w))"
proof -
  have "snakes_create_chain True True = Some (the (snakes_create_chain True True))"
    by (simp add: snakes_create_chain_def)
  from fill_database_snakes_board [OF this]
  have f: "fill_database_snakes (the (snakes_create_chain True True)) (\<lambda>_. True) = Inr (board_chain, EXIT_SUCCESS)"
    by simp
  obtain ws k' where "snakes_loop board_chain (srand seed) 0 0 walks_num = Some (Inr (ws, k'))"
    "map fst ws = [0 + 1..walks_num]" "\<forall>w \<in> set ws. legal_walk (snd w)"
    using snakes_loop_board by blast
  moreover obtain fs where "free_markov_chain board_chain = Inr (None, fs)"
    using free_markov_chain_wf board_chain_state by (auto simp: snakes_state_def)
  ultimately show ?thesis using f by (simp add: snakes_main_def snakes_create_chain_def)
qed

text \<open>C22: the failure exits of \<open>main\<close>: a wrong argument count, a failed
  allocation in \<open>create_chain\<close>, and a failed allocation of a board cell each end
  the program with \<open>EXIT_FAILURE\<close> and no walk.\<close>

theorem snakes_main_errors:
  "(argc \<noteq> ARGS \<longrightarrow> snakes_main argc seed n srand al = Some (Inr (EXIT_FAILURE, []))) \<and>
   (\<not> (al 0 \<and> al 1) \<longrightarrow> snakes_main ARGS seed n srand al = Some (Inr (EXIT_FAILURE, []))) \<and>
   (al 0 \<and> al 1 \<and> i < BOARD_SIZE \<and> \<not> al (i + 2) \<longrightarrow>
      snakes_main ARGS seed n srand al = Some (Inr (EXIT_FAILURE, [])))"
  using create_board_alloc_fail [of i "\<lambda>i. al (i + 2)"]
  by (auto simp: snakes_main_def snakes_create_chain_def fill_database_snakes_def free_markov_chain_def)

text \<open>C23: \<open>fill_database_snakes\<close> ignores the result of \<open>add_to_database\<close>: when
  the board is allocated but the node of cell 1 cannot be, the later inserts
  succeed or not, and the link loop dereferences the \<open>NULL\<close> that
  \<open>get_node_from_database\<close> returns for cell 1.\<close>

theorem fill_database_snakes_ignores_add_failure:
  assumes "\<forall>i < BOARD_SIZE. al i" and "\<not> al BOARD_SIZE"
    and "snakes_create_chain True True = Some mc"
  shows "fill_database_snakes mc al = Inl Null_dereference"
  using fill_database_snakes_first_add_fails [OF assms] .

text \<open>C24: the length cap, against the board scenario's "a walk starting at cell 1
  must terminate only upon reaching cell 100": with a generator that sends the walk
  round the loop \<open>4 -> 10 -> 13 -> 4\<close>, the program prints a walk of exactly
  \<open>MAX_GENERATION_LENGTH = 60\<close> cells that never reaches cell 100, ending with the
  blank of a non-terminal cell, and exits with \<open>EXIT_SUCCESS\<close>.\<close>

theorem snakes_walk_cut_before_goal:
  "\<exists>out. snakes_main ARGS seed 1 (\<lambda>_. cycle_rand) (\<lambda>_. True) = Some (Inr (EXIT_SUCCESS, [(1, out)])) \<and>
     length (renders out) = nat MAX_GENERATION_LENGTH \<and> BOARD_SIZE - 1 \<notin> set (renders out) \<and>
     last out = Space"
proof -
  have "snakes_create_chain True True = Some (the (snakes_create_chain True True))"
    by (simp add: snakes_create_chain_def)
  from fill_database_snakes_board [OF this]
  have f: "fill_database_snakes (the (snakes_create_chain True True)) (\<lambda>_. True) = Inr (board_chain, EXIT_SUCCESS)"
    by simp
  obtain out k' where g: "generate_random_sequence board_chain (Some 0) MAX_GENERATION_LENGTH cycle_rand 0 =
      Some (Inr (out, k'))" and l: "length (renders out) = 60" and st: "set (renders out) \<subseteq> {0, 3, 9, 12}"
    and la: "last out = Space"
    using cycle_generate by blast
  have ne: "database board_chain \<noteq> []" by (simp add: board_chain_def BOARD_SIZE_def)
  have "snakes_loop board_chain cycle_rand 0 0 1 = Some (Inr ([(1, out)], k'))"
    using g ne by (simp add: snakes_loop.simps)
  moreover have "BOARD_SIZE - 1 \<notin> set (renders out)" using st by (auto simp: BOARD_SIZE_def)
  moreover obtain fs where "free_markov_chain board_chain = Inr (None, fs)"
    using free_markov_chain_wf board_chain_state by (auto simp: snakes_state_def)
  ultimately show ?thesis
    using f l la by (simp add: snakes_main_def snakes_create_chain_def MAX_GENERATION_LENGTH_def)
qed

text \<open>C31: failed allocations in the links of \<open>fill_database_snakes\<close>, with the board
  and the hundred nodes allocated.  Whatever the link allocations do, filling ends
  without undefined behaviour: a failure in the dice loop returns \<open>EXIT_FAILURE\<close>,
  one in a ladder or snake link is ignored.  For the first link, from cell 1 to
  cell 2: if the entry's \<open>malloc\<close> fails, the program frees the chain and exits with
  \<open>EXIT_FAILURE\<close>; if the \<open>realloc\<close> fails, the \<open>free_markov_chain\<close> of the
  failure exit reads past the table of cell 1, whose size was already incremented.\<close>

theorem snakes_link_failures:
  assumes al: "\<forall>i < 402. al i"
  shows "(\<exists>mc' st. fill_database_snakes (the (snakes_create_chain True True)) (\<lambda>i. al (i + 2)) = Inr (mc', st)) \<and>
         (\<not> al 402 \<longrightarrow> snakes_main ARGS seed n srand al = Some (Inr (EXIT_FAILURE, []))) \<and>
         (al 402 \<and> \<not> al 403 \<longrightarrow> snakes_main ARGS seed n srand al = Some (Inl Out_of_bounds))"
proof -
  let ?mc = "the (snakes_create_chain True True)"
  let ?mc1 = "?mc\<lparr>database := map (\<lambda>c. \<lparr>data = c, frequency_list = [], fre_list_size = 0\<rparr>) board\<rparr>"
  have c: "snakes_create_chain True True = Some ?mc" by (simp add: snakes_create_chain_def)
  have al': "\<forall>i < 400. al (i + 2)" using al by simp
  have m: "snakes_main ARGS seed n srand al =
      (case fill_database_snakes ?mc (\<lambda>i. al (i + 2)) of
         Inl e \<Rightarrow> Some (Inl e)
       | Inr (mc', EXIT_FAILURE) \<Rightarrow>
           (case free_markov_chain mc' of Inl e \<Rightarrow> Some (Inl e) | Inr _ \<Rightarrow> Some (Inr (EXIT_FAILURE, [])))
       | Inr (mc', EXIT_SUCCESS) \<Rightarrow>
           (case snakes_loop mc' (srand seed) 0 0 n of
              None \<Rightarrow> None
            | Some (Inl e) \<Rightarrow> Some (Inl e)
            | Some (Inr (ws, k)) \<Rightarrow>
                (case free_markov_chain mc' of Inl e \<Rightarrow> Some (Inl e) | Inr _ \<Rightarrow> Some (Inr (EXIT_SUCCESS, ws)))))"
    using al by (simp add: snakes_main_def snakes_create_chain_def)
  have "\<forall>m \<in> set (database ?mc1). fre_list_size m = length (frequency_list m)" by auto
  then have f1: "\<exists>fs. free_markov_chain ?mc1 = Inr (None, fs)" using free_markov_chain_ok by blast
  have f2: "free_markov_chain (?mc1\<lparr>database := (database ?mc1)[0 := (database ?mc1 ! 0)\<lparr>fre_list_size := 1\<rparr>]\<rparr>) =
      Inl Out_of_bounds"
    unfolding free_markov_chain_def
    by (subst free_nodes_overrun [of 0]) (simp_all add: BOARD_SIZE_def)
  show ?thesis
    using fill_database_snakes_first_link [OF al' c] fill_database_snakes_no_ub [OF al' c] m f1 f2 by auto
qed

end
