(* ===== verification/Spec2Isabelle.thy ===== *)
theory Spec2Isabelle
  imports Tweets Snakes
begin

text \<open>
  \<^bold>\<open>A verified model of the Markov-chain engine of Markov-chain-tweets.\<close>

  \<^emph>\<open>The program.\<close>  \<open>src/markov_chain.c\<close> is a generic Markov-chain engine over
  opaque payloads: a database (a linked list of \<open>MarkovNode\<close>s, each with a payload
  and a growable array of \<open>MarkovNodeFrequency\<close> entries, target and count) and four
  behaviours supplied by the client (\<open>comp_func\<close>, \<open>copy_func\<close>, \<open>is_last\<close>,
  \<open>print_func\<close>).  \<open>add_to_database\<close> inserts a payload unless an equal one is
  stored, \<open>add_node_to_frequency_list\<close> records a transition, and
  \<open>generate_random_sequence\<close> performs a weighted random walk, using
  \<open>get_first_random_node\<close> (rejection sampling of a non-terminal start) and
  \<open>get_next_random_node\<close> (cumulative-frequency sampling).  Two clients build chains:
  \<open>src/tweets_generator.c\<close> (words of a text file) and \<open>src/snakes_and_ladders.c\<close>
  (the 100 cells of a board with ladders and snakes).  The linked list
  (\<open>linked_list.c\<close>) and the header \<open>markov_chain.h\<close> are not among the sources;
  their types and \<open>add\<close> are modelled from their use and the spec.

  \<^emph>\<open>The model.\<close>  Shallow embedding, one theory per component:
  \<^item> \<open>Prelude\<close>: errors (\<open>Allocation_error\<close>, and the undefined behaviours
    \<open>Division_by_zero\<close>, \<open>Null_dereference\<close>, \<open>Out_of_bounds\<close>,
    \<open>Int_overflow\<close>), return codes, the random source, checked array reads, prefix sums.
  \<^item> \<open>Markov_Store\<close>: the records \<open>MarkovNodeFrequency\<close>, \<open>MarkovNode\<close>,
    \<open>MarkovChain\<close>; \<open>get_node_from_database\<close> (with its scan
    \<open>scan_database\<close>), \<open>add\<close>, \<open>add_to_database\<close>; the behaviours' contract
    \<open>comp_contract\<close> and the chain invariant \<open>wf_chain\<close> (unique payloads,
    consistent tables).
  \<^item> \<open>Markov_Freq\<close>: \<open>add_node_to_frequency_list\<close> (with its scan
    \<open>find_in_freq\<close>) and the abstraction \<open>freq_mset\<close> of a table to the multiset
    of observed targets.
  \<^item> \<open>Markov_Sample\<close>: \<open>get_random_number\<close>, \<open>sum_frequencies\<close> and
    \<open>choose_by_frequency\<close> (the two loops of \<open>get_next_random_node\<close>),
    \<open>get_next_random_node\<close>, the reference \<open>weighted_pick\<close>, and
    \<open>get_first_random_node\<close>.
  \<^item> \<open>Markov_Walk\<close>: \<open>walk_loop\<close> (the \<open>for\<close> loop) and
    \<open>generate_random_sequence\<close>, the printed output as \<open>out_event\<close>s and
    \<open>render_output\<close>.
  \<^item> \<open>Markov_Teardown\<close>: \<open>free_markov_chain\<close> as the sequence of objects it
    passes to \<open>free\<close> (\<open>heap_obj\<close> names each object by its place in the chain),
    built by \<open>free_entries\<close> (the loop over a table) and \<open>free_nodes\<close> (the loop
    over the nodes); the specification's ownership as \<open>owned_objects\<close> and
    \<open>owner\<close>.
  \<^item> \<open>Tweets\<close> (\<open>src/tweets_generator.c\<close>): the behaviours over C strings
    (\<open>tweets_comp_func\<close> is \<open>strcmp\<close>, \<open>tweets_copy_func\<close> the copied C string,
    \<open>tweets_check_is_last\<close> the final dot, \<open>tweets_print_func\<close>),
    \<open>tweets_create_chain\<close>, the reading of the file (\<open>fgets_lines\<close>, chunks of at
    most \<open>MAX_LINE - 1\<close> characters through a newline) and \<open>strtok_tokens\<close>,
    \<open>fill_database\<close> as the nested loops \<open>fill_lines\<close>/\<open>fill_line\<close> with
    the word limit, \<open>free_func\<close> as \<open>tweets_free_func\<close>, and \<open>main\<close> as
    \<open>tweets_main\<close> with its tweet loop \<open>tweets_loop\<close> and its teardown.
  \<^item> \<open>Snakes_Board\<close> (\<open>src/snakes_and_ladders.c\<close>, first part): the \<open>Cell\<close>
    record, the table \<open>transitions\<close> (read through \<open>NUM_OF_TRANSITIONS\<close>), the
    macro \<open>MAX\<close> as \<open>MAX_int\<close>, \<open>create_board\<close> as the allocation loop
    \<open>alloc_cells\<close> and the transition loop \<open>apply_transitions\<close>, the cell
    behaviours, \<open>handle_error_snakes\<close>, \<open>free_func\<close> as \<open>snakes_free_func\<close>
    and \<open>snakes_create_chain\<close>; the reference \<open>board\<close> read from the
    comment above \<open>transitions\<close>.
  \<^item> \<open>Snakes\<close> (second part): \<open>fill_database_snakes\<close> as \<open>add_cells\<close>,
    \<open>link_loop\<close> and \<open>dice_loop\<close>, and \<open>main\<close> as \<open>snakes_main\<close> with
    \<open>snakes_loop\<close> and its teardown; the reference game chain \<open>board_chain\<close> (\<open>board_targets\<close>:
    the ladder or snake destination, or the cells one to six ahead) and
    \<open>legal_walk\<close>.

  Pointers to nodes are indices into the database list (nodes are only appended, never
  freed before teardown).  Mutation is explicit state passing: each operation takes the
  \<open>MarkovChain\<close> record and returns the new one.  Each \<open>malloc\<close>/\<open>realloc\<close> is a
  boolean parameter, its outcome; a failure is modelled on the branch the code takes.
  \<open>rand()\<close> is a sequence \<open>rs :: nat \<Rightarrow> nat\<close> with a counter of calls threaded
  through the walk, so a fixed seed is a fixed sequence.  Undefined behaviour of C is a
  value of \<open>error\<close> (the \<open>Inl\<close> of a sum), never a hidden unspecified HOL value.
  The unbounded retry loop of \<open>get_first_random_node\<close> is a
  \<open>partial_function (option)\<close>: \<open>None\<close> means it never returns; termination is
  proved where it holds.  All definitions are executable; the witnesses evaluate them by
  \<open>simp\<close>.

  \<^emph>\<open>What is proved.\<close>  Weighted sampling is exact (C1, C2): the scan of
  \<open>get_next_random_node\<close> equals a prefix-sum weighted choice, never reaches its
  fallback, draws once, and chooses each target for exactly \<open>frequency\<close> of the
  \<open>total\<close> draws.  Recording a transition refines adding the target to a multiset
  (C3) and keeps the chain well formed (C4).  Start selection returns the first
  non-terminal draw (C5) and never returns when every node is terminal (C6).
  Insert-or-find keeps payloads unique under every allocation outcome (C7) and
  refines "append if absent" (C12).  A walk follows recorded transitions (C8), prints
  at most \<open>max_length\<close> states, stops at the first terminal state after the start
  and otherwise ends with the trailing blank (C9), never crashes on a chain without
  non-terminal dead ends (C10), and dereferences the \<open>NULL\<close> that
  \<open>get_next_random_node\<close> returns at a dead end (C11).  A failed \<open>realloc\<close>
  leaves the size counter of a table one past its array, and the next lookup in that
  table reads out of bounds (C26).  Teardown of a well-formed chain frees every owned
  object exactly once and never before the objects it owns (C28); after the failed
  \<open>realloc\<close> it reads past the array (C29).

  Tweets: filling a fresh chain from any file stores exactly the distinct tokens in
  order and keeps it well formed (C13); on a file of distinct tokens, filling returns
  \<open>EXIT_SUCCESS\<close> with every token stored whatever the link allocations do, so a
  failed link is never reported (C14); a file ending without a sentence-final word
  crashes every run (C15); the error exits (C16) and the empty run (C17); a positive
  word limit bounds the nodes added, whatever the allocation outcomes (C25), and with
  no failed allocation the chain stores exactly the distinct words among the first
  \<open>words_to_read\<close> tokens (C27).  A run on a file whose every word ends a sentence
  never terminates (C30); every word a completed run prints is a token of the file
  (C32); whatever the allocation outcomes, every recorded transition joins two
  consecutive tokens of one line (C33), so two consecutive words of a printed tweet
  are consecutive in some line (C34).

  Snakes and ladders: \<open>create_board\<close> builds the reference board (C18); the cell
  behaviours meet the engine's contract (C19); \<open>fill_database_snakes\<close> builds
  exactly the game chain (C20); every run of the program with its allocations
  succeeding prints only legal walks from cell 1 that end on cell 100 or are cut at
  60 cells (C21); the error exits (C22); an ignored failed insertion ends in a
  \<open>NULL\<close> dereference (C23); and a walk can be cut at 60 cells without ever
  reaching cell 100 (C24), against the scenario's "terminate only upon reaching
  cell 100"; with the board and the nodes allocated, filling ends without
  undefined behaviour whatever the link allocations do, and a failed allocation in the
  first link exits with \<open>EXIT_FAILURE\<close> after teardown, or, when it is the
  \<open>realloc\<close>, with the out-of-bounds read of that teardown (C31).

  \<^emph>\<open>Bounds and fuel.\<close>  No fuel is used: loops over lists are structural
  recursion, index loops are \<open>function\<close>s with a \<open>measure\<close>, and the only loop
  that may not end, the retry of \<open>get_first_random_node\<close>, is a
  \<open>partial_function (option)\<close>.  Totals of frequencies are checked against
  \<open>INT_MAX\<close>; the snakes walk count \<open>i + 1\<close> stays below \<open>walks_num\<close>, and
  the tweets counter \<open>++i\<close> past \<open>INT_MAX\<close> is the signed overflow it is in C.
  The allocation outcomes are read in program order from one sequence
  \<open>al :: nat \<Rightarrow> bool\<close>: two for \<open>create_chain\<close>, then (snakes) one per board
  cell, three per \<open>add_to_database\<close>, two per \<open>add_node_to_frequency_list\<close>.

  \<^emph>\<open>Plan for the remaining work.\<close>  The walks of snakes and ladders after a
  failed link, and the printed tweets (C32, C34) under failing allocations, where the
  chain is no longer well formed.

  \<^emph>\<open>Not modelled.\<close>  The heap itself: teardown is the sequence of objects
  freed, so memory that no pointer of the chain reaches (the entry leaked by a failed
  \<open>realloc\<close>, the node of a failed insertion, the temporary cells of
  \<open>fill_database_snakes\<close> on its failure exit) is outside the model; the
  \<open>free_data\<close> field of the chain, which no code calls; argument parsing with \<open>sscanf\<close>/\<open>strtol\<close>, whose results are taken as
  parameters; the \<open>printf\<close> of messages (the printed tweets and walks are modelled);
  the file system behind \<open>fopen\<close> (a file is its contents or \<open>None\<close>), with
  \<open>fgets\<close> and \<open>strtok\<close> modelled by their effect on the contents; a failed
  \<open>malloc\<close> inside the clients' \<open>copy_func\<close>, whose \<open>NULL\<close> is stored unchecked
  (modelling it would make every stored payload nullable, a change of the node record
  that the engine's \<open>copy_func\<close> interface does not express);
  and the generator behind \<open>rand()\<close>/\<open>srand()\<close>, abstracted to an arbitrary
  sequence.
\<close>

section \<open>An example chain\<close>

text \<open>
  Three nodes over \<open>nat\<close> payloads: 0 goes to 1 twice and to 2 once, 1 goes to 2,
  and 2 is terminal; comparison is subtraction and copying is the identity.
\<close>

definition ex_chain :: "nat MarkovChain" where
  "ex_chain = \<lparr>database =
     [\<lparr>data = 0, frequency_list = [\<lparr>markov_node = 1, frequency = 2\<rparr>, \<lparr>markov_node = 2, frequency = 1\<rparr>],
       fre_list_size = 2\<rparr>,
      \<lparr>data = 1, frequency_list = [\<lparr>markov_node = 2, frequency = 1\<rparr>], fre_list_size = 1\<rparr>,
      \<lparr>data = 2, frequency_list = [], fre_list_size = 0\<rparr>],
     comp_func = (\<lambda>a b. int a - int b), copy_func = id, is_last = (\<lambda>x. x = 2),
     print_func = (\<lambda>x. if x = 0 then ''a'' else if x = 1 then ''b'' else ''c.'')\<rparr>"

lemma ex_chain_contract: "comp_contract ex_chain"
  by (simp add: ex_chain_def comp_contract_def)

lemma ex_chain_wf: "wf_chain ex_chain"
  by (simp add: ex_chain_def wf_chain_def db_unique_def table_ok_def markov_eval)

lemma ex_chain_table0: "table_ok 3 (database ex_chain ! 0)"
  by (simp add: ex_chain_def table_ok_def)

lemma ex_chain_no_dead_ends: "no_dead_ends ex_chain"
  by (simp add: no_dead_ends_def ex_chain_def markov_eval)

text \<open>Runs of the walk on the example chain, evaluated by \<open>simp\<close> with the guarded
  rules of \<open>markov_eval\<close>; the weak congruences keep \<open>simp\<close> from unfolding the
  loop inside branches whose successor is not yet known.\<close>

lemma ex_chain_start: "get_first_random_node ex_chain (\<lambda>k. k) 0 = Some (Inr (0, 1))"
  by (simp add: markov_eval ex_chain_def)

lemma ex_chain_loop: "walk_loop ex_chain (\<lambda>k. k) 0 19 (Suc 0) = Inr ([Render 1, Space, Render 2], 3)"
  by (simp add: markov_eval ex_chain_def get_next_random_node_def get_random_number_def eval_nat_numeral
      cong: sum.case_cong_weak option.case_cong_weak prod.case_cong_weak)

lemma ex_chain_walk:
  "generate_random_sequence ex_chain None 20 (\<lambda>k. k) 0 =
     Some (Inr ([Render 0, Space, Render 1, Space, Render 2], 3))"
  by (simp add: generate_random_sequence_def ex_chain_start ex_chain_loop)

lemma ex_chain_walk_bound:
  "generate_random_sequence ex_chain (Some 0) 2 (\<lambda>_. 0) 0 =
     Some (Inr ([Render 0, Space, Render 1, Space], 1))"
  by (simp add: markov_eval ex_chain_def generate_random_sequence_def get_next_random_node_def
      get_random_number_def)

section \<open>Witnesses\<close>

theorem get_next_random_node_weighted_witness:
  "table_ok 3 (database ex_chain ! 0) \<and> frequency_list (database ex_chain ! 0) \<noteq> [] \<and>
   int (sum_list (map frequency (frequency_list (database ex_chain ! 0)))) \<le> INT_MAX \<and>
   get_next_random_node (database ex_chain ! 0) (\<lambda>_. 2) 0 = Inr (Some 2, 1)"
proof -
  have ne: "frequency_list (database ex_chain ! 0) \<noteq> []" by (simp add: ex_chain_def)
  have fits: "int (sum_list (map frequency (frequency_list (database ex_chain ! 0)))) \<le> INT_MAX"
    by (simp add: ex_chain_def)
  obtain j where "j < length (frequency_list (database ex_chain ! 0))"
    "weighted_pick (map frequency (frequency_list (database ex_chain ! 0))) (2 mod 3) = Some j"
    "get_next_random_node (database ex_chain ! 0) (\<lambda>_. 2) 0 =
       Inr (Some (markov_node (frequency_list (database ex_chain ! 0) ! j)), 1)"
    using get_next_random_node_weighted [OF ex_chain_table0 ne fits, of "\<lambda>_. 2" 0]
    by (auto simp: ex_chain_def)
  then show ?thesis
    using ex_chain_table0 ne fits
    by (simp add: ex_chain_def weighted_pick_def)
qed

theorem get_next_random_node_frequency_witness:
  "table_ok 3 (database ex_chain ! 0) \<and> frequency_list (database ex_chain ! 0) \<noteq> [] \<and>
   int (sum_list (map frequency (frequency_list (database ex_chain ! 0)))) \<le> INT_MAX \<and>
   card {r. r < 3 \<and> get_next_random_node (database ex_chain ! 0) (\<lambda>_. r) 0 = Inr (Some 1, 1)} = 2"
proof -
  have ne: "frequency_list (database ex_chain ! 0) \<noteq> []" by (simp add: ex_chain_def)
  have fits: "int (sum_list (map frequency (frequency_list (database ex_chain ! 0)))) \<le> INT_MAX"
    by (simp add: ex_chain_def)
  have j: "0 < length (frequency_list (database ex_chain ! 0))" by (simp add: ex_chain_def)
  show ?thesis
    using get_next_random_node_frequency [OF ex_chain_table0 ne fits j] ex_chain_table0 ne fits
    by (simp add: ex_chain_def)
qed

theorem add_node_to_frequency_list_refines_witness:
  "comp_contract ex_chain \<and> wf_chain ex_chain \<and> 0 < length (database ex_chain) \<and>
   2 < length (database ex_chain) \<and>
   (\<exists>mc'. add_node_to_frequency_list ex_chain 0 2 True True = Inr (mc', EXIT_SUCCESS) \<and>
      freq_mset (frequency_list (database mc' ! 0)) = {#1, 1, 2, 2#})"
proof -
  have a: "0 < length (database ex_chain)" and b: "2 < length (database ex_chain)"
    by (simp_all add: ex_chain_def)
  have "freq_mset (frequency_list (database ex_chain ! 0)) = {#1, 1, 2#}"
    by (simp add: ex_chain_def numeral_eq_Suc)
  then show ?thesis
    using add_node_to_frequency_list_refines [OF ex_chain_contract ex_chain_wf a b]
      ex_chain_contract ex_chain_wf a b
    by auto
qed

theorem add_node_to_frequency_list_wf_witness:
  "comp_contract ex_chain \<and> wf_chain ex_chain \<and> 1 < length (database ex_chain) \<and>
   0 < length (database ex_chain) \<and>
   (\<exists>mc'. add_node_to_frequency_list ex_chain 1 0 True True = Inr (mc', EXIT_SUCCESS) \<and>
      wf_chain mc')"
proof -
  have a: "1 < length (database ex_chain)" and b: "0 < length (database ex_chain)"
    by (simp_all add: ex_chain_def)
  show ?thesis
    using add_node_to_frequency_list_wf [OF ex_chain_contract ex_chain_wf a b]
      ex_chain_contract ex_chain_wf a b
    by blast
qed

theorem get_first_random_node_first_nonterminal_witness:
  "database ex_chain \<noteq> [] \<and> (0::nat) \<le> 1 \<and>
   get_first_random_node ex_chain (\<lambda>k. if k = 0 then 2 else 4) 0 = Some (Inr (1, 2))"
proof -
  have ne: "database ex_chain \<noteq> []" by (simp add: ex_chain_def)
  have hit: "\<not> is_last ex_chain (data (database ex_chain !
      ((\<lambda>k::nat. if k = 0 then 2 else 4::nat) 1 mod length (database ex_chain))))"
    by (simp add: ex_chain_def)
  have miss: "\<forall>j. 0 \<le> j \<and> j < 1 \<longrightarrow> is_last ex_chain (data (database ex_chain !
      ((\<lambda>k::nat. if k = 0 then 2 else 4::nat) j mod length (database ex_chain))))"
    by (simp add: ex_chain_def)
  show ?thesis
    using get_first_random_node_first_nonterminal [OF ne _ hit miss] ne
    by (simp add: ex_chain_def)
qed

theorem get_first_random_node_all_terminal_witness:
  "database (ex_chain\<lparr>is_last := \<lambda>_. True\<rparr>) \<noteq> [] \<and>
   get_first_random_node (ex_chain\<lparr>is_last := \<lambda>_. True\<rparr>) (\<lambda>k. k) 0 = None"
proof -
  have ne: "database (ex_chain\<lparr>is_last := \<lambda>_. True\<rparr>) \<noteq> []" by (simp add: ex_chain_def)
  have all: "\<forall>i < length (database (ex_chain\<lparr>is_last := \<lambda>_. True\<rparr>)).
      is_last (ex_chain\<lparr>is_last := \<lambda>_. True\<rparr>) (data (database (ex_chain\<lparr>is_last := \<lambda>_. True\<rparr>) ! i))"
    by simp
  show ?thesis using get_first_random_node_all_terminal [OF ne all] ne by simp
qed

theorem add_to_database_wf_witness:
  "comp_contract ex_chain \<and> wf_chain ex_chain \<and>
   wf_chain (fst (add_to_database ex_chain 5 True True True)) \<and>
   length (database (fst (add_to_database ex_chain 5 True True True))) = 4"
proof -
  have "wf_chain (fst (add_to_database ex_chain 5 True True True))"
    using add_to_database_wf [OF ex_chain_contract ex_chain_wf] .
  moreover have "length (database (fst (add_to_database ex_chain 5 True True True))) = 4"
    by (simp add: ex_chain_def add_to_database_def get_node_from_database_def add_def)
  ultimately show ?thesis using ex_chain_contract ex_chain_wf by simp
qed

theorem generate_random_sequence_path_witness:
  "renders [Render 0, Space, Render 1, Space, Render 2] \<noteq> [] \<and>
   chain_path ex_chain (renders [Render 0, Space, Render 1, Space, Render 2])"
  using generate_random_sequence_path [OF ex_chain_walk] .

theorem generate_random_sequence_shape_witness:
  "length (renders [Render 0, Space, Render 1, Space]) \<le> max 1 (nat 2) \<and>
   last [Render 0, Space, Render 1, Space] = Space \<and>
   length (renders [Render 0, Space, Render 1, Space]) = max 1 (nat 2)"
  using generate_random_sequence_shape [OF ex_chain_walk_bound] by simp

theorem generate_random_sequence_no_crash_witness:
  "wf_chain ex_chain \<and> no_dead_ends ex_chain \<and> 0 < length (database ex_chain) \<and>
   frequency_list (database ex_chain ! 0) \<noteq> [] \<and>
   (\<exists>out k'. generate_random_sequence ex_chain (Some 0) 20 (\<lambda>k. k) 0 = Some (Inr (out, k')))"
proof -
  have s: "0 < length (database ex_chain)" and ne: "frequency_list (database ex_chain ! 0) \<noteq> []"
    by (simp_all add: ex_chain_def)
  show ?thesis
    using generate_random_sequence_no_crash [OF ex_chain_wf ex_chain_no_dead_ends s ne]
      ex_chain_wf ex_chain_no_dead_ends s ne
    by blast
qed

theorem generate_random_sequence_dead_end_witness:
  "frequency_list (database ex_chain ! 2) = [] \<and> fre_list_size (database ex_chain ! 2) = 0 \<and>
   (2::int) \<le> 20 \<and>
   generate_random_sequence ex_chain (Some 2) 20 (\<lambda>k. k) 0 = Some (Inl Null_dereference)"
proof -
  have e: "frequency_list (database ex_chain ! 2) = []" and z: "fre_list_size (database ex_chain ! 2) = 0"
    by (simp_all add: ex_chain_def)
  show ?thesis using generate_random_sequence_dead_end [OF e z, of 20] e z by simp
qed

theorem add_to_database_refines_witness:
  "\<exists>i. snd (add_to_database ex_chain 5 True True True) = Some i \<and>
     map data (database (fst (add_to_database ex_chain 5 True True True))) = [0, 1, 2, 5] \<and>
     data (database (fst (add_to_database ex_chain 5 True True True)) ! i) = 5"
proof -
  have c: "\<forall>y \<in> set (map data (database ex_chain)). comp_func ex_chain y 5 = 0 \<longleftrightarrow> y = 5"
    and d: "copy_func ex_chain 5 = 5"
    by (simp_all add: ex_chain_def)
  have "store_insert (map data (database ex_chain)) 5 = [0, 1, 2, 5]"
    by (simp add: ex_chain_def store_insert_def)
  then show ?thesis using add_to_database_refines [OF c d] by auto
qed

theorem fill_database_refines_witness:
  "\<exists>mc'. fill_database scenario_text MAX_WORD_TO_READ (the (tweets_create_chain True True)) (\<lambda>_. True) =
       Inr (mc', EXIT_SUCCESS) \<and> wf_chain mc' \<and>
     map data (database mc') = foldl store_insert [] (concat (map strtok_tokens (fgets_lines scenario_text)))"
proof -
  have c: "tweets_create_chain True True = Some (the (tweets_create_chain True True))"
    by (simp add: tweets_create_chain_def)
  show ?thesis using fill_database_refines [OF c, of scenario_text] .
qed

theorem tweets_main_errors_witness:
  "tweets_main 3 0 1 0 None (\<lambda>_ k. k) (\<lambda>_. True) = Some (Inr (EXIT_FAILURE, [])) \<and>
   tweets_main 4 0 1 0 None (\<lambda>_ k. k) (\<lambda>_. True) = Some (Inl Null_dereference) \<and>
   tweets_main 4 0 1 0 (Some ''a'') (\<lambda>_ k. k) (\<lambda>_. False) = Some (Inr (EXIT_FAILURE, []))"
  using tweets_main_errors [where argc = 3 and seed = 0 and n = 1 and w = 0 and input = None
      and srand = "\<lambda>_ k. k" and al = "\<lambda>_. True"]
    tweets_main_errors [where argc = 4 and seed = 0 and n = 1 and w = 0 and contents = "''a''"
      and srand = "\<lambda>_ k. k" and al = "\<lambda>_. False"]
    tweets_main_errors [where argc = 4 and seed = 0 and n = 1 and w = 0
      and srand = "\<lambda>_ k. k" and al = "\<lambda>_. True"]
  by (simp_all add: MIN_ARGC_def MAX_ARGC_def)

theorem tweets_main_no_tweets_witness:
  "(0::int) < 1 \<and>
   tweets_main MIN_ARGC 0 0 0 (Some scenario_text) (\<lambda>_ k. k) (\<lambda>_. True) = Some (Inr (EXIT_SUCCESS, []))"
  using tweets_main_no_tweets [of 0] by simp

theorem create_board_refines_witness:
  "create_board (\<lambda>_. True) = Inr (Some board) \<and> create_board (\<lambda>j. j \<noteq> 5) = Inr None"
  using create_board_refines [of 5 "\<lambda>j. j \<noteq> 5"] by (simp add: BOARD_SIZE_def)

theorem snakes_create_chain_contract_witness:
  "comp_contract (the (snakes_create_chain True True)) \<and> wf_chain (the (snakes_create_chain True True)) \<and>
   database (the (snakes_create_chain True True)) = []"
proof -
  have c: "snakes_create_chain True True = Some (the (snakes_create_chain True True))"
    by (simp add: snakes_create_chain_def)
  show ?thesis using snakes_create_chain_contract [OF c] by blast
qed

theorem fill_database_snakes_refines_witness:
  "fill_database_snakes (the (snakes_create_chain True True)) (\<lambda>_. True) = Inr (board_chain, EXIT_SUCCESS) \<and>
   wf_chain board_chain"
proof -
  have c: "snakes_create_chain True True = Some (the (snakes_create_chain True True))"
    by (simp add: snakes_create_chain_def)
  show ?thesis using fill_database_snakes_refines [OF c] .
qed

theorem snakes_main_walks_witness:
  "\<exists>ws. snakes_main ARGS 0 1 (\<lambda>_ k. k) (\<lambda>_. True) = Some (Inr (EXIT_SUCCESS, ws)) \<and>
     map fst ws = [1] \<and> legal_walk (snd (hd ws))"
proof -
  obtain ws where m: "snakes_main ARGS 0 1 (\<lambda>_ k. k) (\<lambda>_. True) = Some (Inr (EXIT_SUCCESS, ws))"
    and f: "map fst ws = [1..1]" and a: "\<forall>w \<in> set ws. legal_walk (snd w)"
    using snakes_main_walks [of 0 1 "\<lambda>_ k. k"] by blast
  have "ws \<noteq> []" using f by auto
  then have "legal_walk (snd (hd ws))" using a by simp
  with m f show ?thesis by auto
qed

theorem snakes_main_errors_witness:
  "snakes_main 2 0 1 (\<lambda>_ k. k) (\<lambda>_. True) = Some (Inr (EXIT_FAILURE, [])) \<and>
   snakes_main ARGS 0 1 (\<lambda>_ k. k) (\<lambda>_. False) = Some (Inr (EXIT_FAILURE, [])) \<and>
   snakes_main ARGS 0 1 (\<lambda>_ k. k) (\<lambda>j. j \<noteq> 7) = Some (Inr (EXIT_FAILURE, []))"
  using snakes_main_errors [where argc = 2 and seed = 0 and n = 1 and srand = "\<lambda>_ k. k" and al = "\<lambda>_. True"]
    snakes_main_errors [where seed = 0 and n = 1 and srand = "\<lambda>_ k. k" and al = "\<lambda>_. False"]
    snakes_main_errors [where seed = 0 and n = 1 and srand = "\<lambda>_ k. k" and al = "\<lambda>j. j \<noteq> 7" and i = 5]
  by (simp_all add: ARGS_def BOARD_SIZE_def)

theorem fill_database_snakes_ignores_add_failure_witness:
  "fill_database_snakes (the (snakes_create_chain True True)) (\<lambda>i. i \<noteq> BOARD_SIZE) = Inl Null_dereference"
proof -
  have c: "snakes_create_chain True True = Some (the (snakes_create_chain True True))"
    by (simp add: snakes_create_chain_def)
  show ?thesis using fill_database_snakes_ignores_add_failure [of "\<lambda>i. i \<noteq> BOARD_SIZE", OF _ _ c] by simp
qed

theorem fill_database_word_limit_witness:
  "\<exists>mc' st. fill_database scenario_text 2 (the (tweets_create_chain True True)) (\<lambda>_. True) = Inr (mc', st) \<and>
     length (database mc') \<le> 2"
proof -
  have "\<exists>mc' st. fill_database scenario_text 2 (the (tweets_create_chain True True)) (\<lambda>_. True) = Inr (mc', st)"
    by (simp add: fgets_lines_scenario markov_eval tweets_eval_defs Let_def
        cong: sum.case_cong_weak option.case_cong_weak prod.case_cong_weak)
  then obtain mc' st where e: "fill_database scenario_text 2 (the (tweets_create_chain True True)) (\<lambda>_. True) =
      Inr (mc', st)" by blast
  have "length (database mc') \<le> length (database (the (tweets_create_chain True True))) + nat 2"
    using fill_database_word_limit [OF _ e] by simp
  then show ?thesis using e by (auto simp: tweets_create_chain_def)
qed

theorem add_node_to_frequency_list_realloc_failure_witness:
  "\<exists>mc'. add_node_to_frequency_list ex_chain 0 0 True False = Inr (mc', EXIT_FAILURE) \<and>
     fre_list_size (database mc' ! 0) = Suc (length (frequency_list (database mc' ! 0))) \<and>
     \<not> wf_chain mc' \<and> add_node_to_frequency_list mc' 0 0 True True = Inl Out_of_bounds"
proof -
  have a: "0 < length (database ex_chain)"
    and nb: "0 \<notin> set (map markov_node (frequency_list (database ex_chain ! 0)))"
    by (simp_all add: ex_chain_def)
  show ?thesis using add_node_to_frequency_list_realloc_failure [OF ex_chain_contract ex_chain_wf a a nb] .
qed

theorem fill_database_limit_refines_witness:
  "\<exists>mc'. fill_database scenario_text 2 (the (tweets_create_chain True True)) (\<lambda>_. True) = Inr (mc', EXIT_SUCCESS) \<and>
     wf_chain mc' \<and> map data (database mc') = [''the'', ''cat'']"
proof -
  have c: "tweets_create_chain True True = Some (the (tweets_create_chain True True))"
    by (simp add: tweets_create_chain_def)
  have "foldl store_insert [] (take (nat 2) (concat (map strtok_tokens (fgets_lines scenario_text)))) =
      [''the'', ''cat'']"
    by (simp add: fgets_lines_scenario strtok_tokens_def c_str_def DELIMITERS_def store_insert_def)
  then show ?thesis using fill_database_limit_refines [OF c, of 2 scenario_text] by simp
qed

theorem free_markov_chain_releases_owned_witness:
  "\<exists>fs. free_markov_chain ex_chain = Inr (None, fs) \<and> distinct fs \<and>
     set fs = owned_objects ex_chain \<and> owners_later fs"
  using free_markov_chain_releases_owned [OF ex_chain_wf] .

theorem realloc_failure_breaks_teardown_witness:
  "\<exists>mc'. add_node_to_frequency_list ex_chain 0 0 True False = Inr (mc', EXIT_FAILURE) \<and>
     free_markov_chain mc' = Inl Out_of_bounds"
proof -
  have a: "0 < length (database ex_chain)"
    and nb: "0 \<notin> set (map markov_node (frequency_list (database ex_chain ! 0)))"
    by (simp_all add: ex_chain_def)
  show ?thesis using realloc_failure_breaks_teardown [OF ex_chain_contract ex_chain_wf a a nb] .
qed

theorem tweets_main_all_final_witness:
  "(1::int) \<le> 1 \<and> concat (map strtok_tokens (fgets_lines (''a. b.'' @ [CHR 0x0A]))) \<noteq> [] \<and>
   tweets_main MIN_ARGC 0 1 0 (Some (''a. b.'' @ [CHR 0x0A])) (\<lambda>_ k. k) (\<lambda>_. True) = None"
proof -
  have t: "concat (map strtok_tokens (fgets_lines (''a. b.'' @ [CHR 0x0A]))) = [''a.'', ''b.'']"
    by (simp add: strtok_tokens_def c_str_def DELIMITERS_def MAX_LINE_def markov_eval)
  have "tweets_main MIN_ARGC 0 1 0 (Some (''a. b.'' @ [CHR 0x0A])) (\<lambda>_ k. k) (\<lambda>_. True) = None"
    by (rule tweets_main_all_final) (simp_all add: strtok_tokens_def c_str_def DELIMITERS_def MAX_LINE_def
      tweets_check_is_last_def markov_eval)
  then show ?thesis using t by simp
qed

theorem snakes_link_failures_witness:
  "(\<exists>mc' st. fill_database_snakes (the (snakes_create_chain True True)) (\<lambda>i. i + 2 \<noteq> 402) = Inr (mc', st)) \<and>
   snakes_main ARGS 0 1 (\<lambda>_ k. k) (\<lambda>i. i \<noteq> 402) = Some (Inr (EXIT_FAILURE, [])) \<and>
   snakes_main ARGS 0 1 (\<lambda>_ k. k) (\<lambda>i. i \<noteq> 403) = Some (Inl Out_of_bounds)"
  using snakes_link_failures [of "\<lambda>i. i \<noteq> 402" 0 1 "\<lambda>_ k. k"]
    snakes_link_failures [of "\<lambda>i. i \<noteq> 403" 0 1 "\<lambda>_ k. k"] by simp

theorem tweets_main_words_from_file_witness:
  "tweets_main MIN_ARGC 0 2 0 (Some scenario_text) (\<lambda>_ k. k) (\<lambda>_. True) =
     Some (Inr (EXIT_SUCCESS,
       [(1, [Render 0, Space, Render 3, Space, Render 4]), (2, [Render 3, Space, Render 4])])) \<and>
   (\<exists>mc'. fill_database scenario_text MAX_WORD_TO_READ (the (tweets_create_chain True True)) (\<lambda>_. True) =
       Inr (mc', EXIT_SUCCESS) \<and>
     data (database mc' ! 3) \<in> set (concat (map strtok_tokens (fgets_lines scenario_text))))"
proof -
  have run: "tweets_main MIN_ARGC 0 2 0 (Some scenario_text) (\<lambda>_ k. k) (\<lambda>_. True) =
     Some (Inr (EXIT_SUCCESS,
       [(1, [Render 0, Space, Render 3, Space, Render 4]), (2, [Render 3, Space, Render 4])]))"
    by (rule tweets_main_scenario_run)
  obtain mc' where "fill_database scenario_text MAX_WORD_TO_READ (the (tweets_create_chain True True)) (\<lambda>_. True) =
       Inr (mc', EXIT_SUCCESS)"
    and "\<forall>t \<in> set [(1::int, [Render 0, Space, Render 3, Space, Render 4]), (2, [Render 3, Space, Render 4])].
       \<forall>r \<in> set (renders (snd t)). r < length (database mc') \<and>
         data (database mc' ! r) \<in> set (concat (map strtok_tokens (fgets_lines scenario_text)))"
    using tweets_main_words_from_file [OF run] by blast
  then show ?thesis using run by auto
qed

theorem fill_database_links_bigrams_witness:
  "fill_database scenario_text MAX_WORD_TO_READ (the (tweets_create_chain True True)) (\<lambda>_. True) =
     Inr (scenario_chain, EXIT_SUCCESS) \<and>
   (''the'', ''dog'') \<in> line_bigrams scenario_text"
proof -
  have c: "tweets_create_chain True True = Some (the (tweets_create_chain True True))"
    by (simp add: tweets_create_chain_def)
  have "links_within (line_bigrams scenario_text) scenario_chain"
    by (rule fill_database_links_bigrams [OF c fill_database_scenario])
  moreover have "0 < length (database scenario_chain)"
    "3 \<in> set (map markov_node (frequency_list (database scenario_chain ! 0)))"
    by (simp_all add: scenario_chain_def)
  ultimately have "(data (database scenario_chain ! 0), data (database scenario_chain ! 3)) \<in> line_bigrams scenario_text"
    unfolding links_within_def by blast
  then show ?thesis using fill_database_scenario by (simp add: scenario_chain_def)
qed

theorem tweets_main_bigrams_witness:
  "tweets_main MIN_ARGC 0 2 0 (Some scenario_text) (\<lambda>_ k. k) (\<lambda>_. True) =
     Some (Inr (EXIT_SUCCESS,
       [(1, [Render 0, Space, Render 3, Space, Render 4]), (2, [Render 3, Space, Render 4])])) \<and>
   (\<exists>mc'. fill_database scenario_text MAX_WORD_TO_READ (the (tweets_create_chain True True)) (\<lambda>_. True) =
       Inr (mc', EXIT_SUCCESS) \<and>
     (data (database mc' ! 0), data (database mc' ! 3)) \<in> line_bigrams scenario_text)"
proof -
  have run: "tweets_main MIN_ARGC 0 2 0 (Some scenario_text) (\<lambda>_ k. k) (\<lambda>_. True) =
     Some (Inr (EXIT_SUCCESS,
       [(1, [Render 0, Space, Render 3, Space, Render 4]), (2, [Render 3, Space, Render 4])]))"
    by (rule tweets_main_scenario_run)
  obtain mc' where f: "fill_database scenario_text MAX_WORD_TO_READ (the (tweets_create_chain True True)) (\<lambda>_. True) =
       Inr (mc', EXIT_SUCCESS)"
    and b: "\<forall>t \<in> set [(1::int, [Render 0, Space, Render 3, Space, Render 4]), (2, [Render 3, Space, Render 4])].
       \<forall>j. Suc j < length (renders (snd t)) \<longrightarrow>
         (data (database mc' ! (renders (snd t) ! j)), data (database mc' ! (renders (snd t) ! Suc j)))
           \<in> line_bigrams scenario_text"
    using tweets_main_bigrams [OF run] by blast
  have "(data (database mc' ! 0), data (database mc' ! 3)) \<in> line_bigrams scenario_text"
    using b by (auto dest: bspec [of _ _ "(1, [Render 0, Space, Render 3, Space, Render 4])"] spec [of _ 0])
  then show ?thesis using run f by blast
qed

theorem fill_database_ignores_link_failure_witness:
  "\<exists>mc'. fill_database (''a b'' @ [CHR 0x0A]) MAX_WORD_TO_READ (the (tweets_create_chain True True))
       (\<lambda>i. i mod 5 < 3) = Inr (mc', EXIT_SUCCESS) \<and> map data (database mc') = [''a'', ''b'']"
proof -
  have c: "tweets_create_chain True True = Some (the (tweets_create_chain True True))"
    by (simp add: tweets_create_chain_def)
  have t: "concat (map strtok_tokens (fgets_lines (''a b'' @ [CHR 0x0A]))) = [''a'', ''b'']"
    by (simp add: strtok_tokens_def c_str_def DELIMITERS_def MAX_LINE_def markov_eval)
  show ?thesis
    using fill_database_ignores_link_failure [OF c, of "''a b'' @ [CHR 0x0A]" "\<lambda>i. i mod 5 < 3"] t by simp
qed

end
